theory Spec2Isabelle
  imports Complex_Main "HOL-Library.AList"
begin

section \<open>Python values and builtins used by the translator\<close>

text \<open>
  Exceptions are values. The string carried by \<open>NotImplementedError\<close> is the message
  the source passes to the exception.
\<close>

datatype error =
    AssertionError
  | ValueError
  | KeyError
  | IndexError
  | TypeError
  | AttributeError
  | OverflowError
  | StopIteration
  | NotImplementedError string

text \<open>
  A Python \<open>dict\<close> is an association list in insertion order with distinct keys.
  \<open>d[k] = v\<close> is \<^const>\<open>AList.update\<close>: an existing key keeps its position and
  gets the new value, a new key is appended. \<open>d[k]\<close> is \<^const>\<open>map_of\<close>, with
  \<open>None\<close> for the \<open>KeyError\<close>.

  The key of a membership test can be a string or an integer. The dictionaries of the
  translator only have integer keys, and a string never equals an integer in Python.
\<close>

datatype pykey = KStr string | KInt int

fun contains :: "pykey \<Rightarrow> (int \<times> 'v) list \<Rightarrow> bool" where
  "contains (KStr s) d = False"
| "contains (KInt k) d = (k \<in> fst ` set d)"

text \<open>
  \<open>if k not in d: d[k] = dflt\<close> followed by a read of \<open>d[k]\<close>: the value that is
  read.
\<close>

definition get_or :: "'v \<Rightarrow> (int \<times> 'v) list \<Rightarrow> int \<Rightarrow> 'v" where
  "get_or dflt d k = (case map_of d k of None \<Rightarrow> dflt | Some v \<Rightarrow> v)"

text \<open>
  Text is ASCII. \<open>str.split()\<close> without arguments cuts at runs of whitespace and
  returns no empty token.
\<close>

definition is_space :: "char \<Rightarrow> bool" where
  "is_space c = (c \<in> set [CHR '' '', CHR 0x09, CHR 0x0A, CHR 0x0B, CHR 0x0C, CHR 0x0D,
                            CHR 0x1C, CHR 0x1D, CHR 0x1E, CHR 0x1F])"

fun split_aux :: "string \<Rightarrow> string \<Rightarrow> string list" where
  "split_aux cur [] = (if cur = [] then [] else [cur])"
| "split_aux cur (c # cs) =
     (if is_space c then (if cur = [] then split_aux [] cs else cur # split_aux [] cs)
      else split_aux (cur @ [c]) cs)"

definition split :: "string \<Rightarrow> string list" where
  "split s = split_aux [] s"

text \<open>
  \<open>int(s)\<close> and \<open>float(s)\<close> drop less around the literal than \<open>split\<close> cuts at:
  only the space and the characters \<open>0x09\<close> to \<open>0x0D\<close>. A string that keeps one of
  \<open>0x1C\<close> to \<open>0x1F\<close> beside the digits is a \<open>ValueError\<close>.
\<close>

definition is_c_space :: "char \<Rightarrow> bool" where
  "is_c_space c = (c \<in> set [CHR '' '', CHR 0x09, CHR 0x0A, CHR 0x0B, CHR 0x0C, CHR 0x0D])"

definition strip :: "string \<Rightarrow> string" where
  "strip s = rev (dropWhile is_c_space (rev (dropWhile is_c_space s)))"

text \<open>
  \<open>int(s)\<close> for a string: surrounding whitespace is dropped, one sign is allowed,
  then decimal digits, where single underscores may stand between two digits.
  \<open>None\<close> is the \<open>ValueError\<close>. (The interpreter's limit on the number of digits
  is left out.)
\<close>

definition digit_of :: "char \<Rightarrow> nat option" where
  "digit_of c = (let n = (of_char c :: nat) in if 48 \<le> n \<and> n \<le> 57 then Some (n - 48) else None)"

fun digits_value :: "nat \<Rightarrow> string \<Rightarrow> nat option" where
  "digits_value acc [] = Some acc"
| "digits_value acc [c] = map_option (\<lambda>d. 10 * acc + d) (digit_of c)"
| "digits_value acc (c # d # cs) =
     (if c = CHR ''_''
      then (case digit_of d of None \<Rightarrow> None | Some k \<Rightarrow> digits_value (10 * acc + k) cs)
      else (case digit_of c of None \<Rightarrow> None | Some k \<Rightarrow> digits_value (10 * acc + k) (d # cs)))"

definition nat_literal :: "string \<Rightarrow> nat option" where
  "nat_literal s =
     (case s of [] \<Rightarrow> None
      | c # cs \<Rightarrow> (case digit_of c of None \<Rightarrow> None | Some d \<Rightarrow> digits_value d cs))"

definition py_int :: "string \<Rightarrow> int option" where
  "py_int s =
     (case strip s of [] \<Rightarrow> None
      | c # cs \<Rightarrow>
          if c = CHR ''-'' then map_option (\<lambda>n. - int n) (nat_literal cs)
          else if c = CHR ''+'' then map_option int (nat_literal cs)
          else map_option int (nat_literal (c # cs)))"

text \<open>\<open>str(i)\<close> of a natural number, for the f-string \<open>f"var{i}"\<close>.\<close>

fun str_nat :: "nat \<Rightarrow> string" where
  "str_nat n =
     (if n < 10 then [''0123456789'' ! n]
      else str_nat (n div 10) @ [''0123456789'' ! (n mod 10)])"

declare str_nat.simps [simp del]

definition startswith :: "string \<Rightarrow> string \<Rightarrow> bool" where
  "startswith s p = (take (length p) s = p)"

text \<open>
  A Python \<open>float\<close> is either a finite double, given by its exact rational value, an
  infinity, or a NaN. How \<open>float(s)\<close> rounds a decimal literal to a double is not
  modelled: the conversion is a parameter \<open>flt\<close> of the parser (\<open>None\<close> is the
  \<open>ValueError\<close>), and what the translator does with the resulting double is exact.
\<close>

datatype pyfloat = Finite rat | Infinity | NaN

text \<open>\<open>round(x)\<close> with one argument: the nearest integer, ties to the even one.\<close>

definition round_half_even :: "rat \<Rightarrow> int" where
  "round_half_even q =
     (let f = \<lfloor>q\<rfloor>; r = q - of_int f
      in if r < 1 / 2 then f else if 1 / 2 < r then f + 1 else if even f then f else f + 1)"

definition py_round :: "pyfloat \<Rightarrow> error + int" where
  "py_round x = (case x of Finite q \<Rightarrow> Inr (round_half_even q)
                 | Infinity \<Rightarrow> Inl OverflowError | NaN \<Rightarrow> Inl ValueError)"

text \<open>\<open>n == x\<close> for an integer and a float compares the exact values.\<close>

definition int_eq_float :: "int \<Rightarrow> pyfloat \<Rightarrow> bool" where
  "int_eq_float n x = (case x of Finite q \<Rightarrow> of_int n = q | _ \<Rightarrow> False)"

text \<open>
  An instance of \<open>flt\<close> for evaluating examples: integer literals, where the conversion
  to a double is exact below \<open>2^53\<close>, and literals with one decimal digit \<open>5\<close> after
  the point, which are exact as well.
\<close>

definition float_simple :: "string \<Rightarrow> pyfloat option" where
  "float_simple s =
     (case py_int s of Some n \<Rightarrow> Some (Finite (of_int n))
      | None \<Rightarrow>
         (let t = strip s; k = length t
          in if 2 \<le> k \<and> drop (k - 2) t = ''.5''
             then (case py_int (take (k - 2) t) of None \<Rightarrow> None
                   | Some n \<Rightarrow> Some (Finite (if CHR ''-'' \<in> set t then of_int n - 1 / 2
                                               else of_int n + 1 / 2)))
             else None))"


section \<open>The intermediate representation\<close>

record Operator =
  op_name :: string
  op_preconditions :: "(int \<times> int) list"
  op_effects :: "(int \<times> int) list"
  op_cost :: int

record Rule =
  rule_preconditions :: "(int \<times> int) list"
  rule_var :: int
  rule_val :: int

record Variable =
  var_name :: string
  var_values :: "string list"
  var_axiom_layer :: int

section \<open>The target model\<close>

text \<open>
  The modelling library is an external collaborator. Its expressions are kept as syntax:
  \<open>IntVar k\<close> is the handle returned by the \<open>k\<close>-th \<open>add_int_var\<close>, \<open>BoolFun k\<close>
  the handle returned by the \<open>k\<close>-th \<open>add_bool_state_fun\<close>, \<open>EqC e c\<close> is
  \<open>e == c\<close> for a constant, \<open>EqE\<close> the same between two expressions, \<open>Neg e\<close> is
  \<open>~e\<close>, \<open>And\<close> and \<open>Or\<close> are \<open>&\<close> and \<open>|\<close>. The model records the
  construction calls it receives, in order. The cost of a transition is \<open>t_cost\<close>
  plus the state cost.
\<close>

datatype expr =
    IntVar nat
  | BoolFun nat
  | EqC expr int
  | EqE expr expr
  | Neg expr
  | And expr expr
  | Or expr expr

record Transition =
  t_name :: string
  t_cost :: int
  t_preconditions :: "expr list"
  t_effects :: "(expr \<times> int) list"

record Model =
  int_vars :: "(string \<times> int) list"
  bool_state_funs :: "expr list"
  transitions :: "Transition list"
  base_cases :: "expr list list"

definition empty_model :: Model where
  "empty_model = \<lparr>int_vars = [], bool_state_funs = [], transitions = [], base_cases = []\<rparr>"

definition add_int_var :: "string \<Rightarrow> int \<Rightarrow> Model \<Rightarrow> expr \<times> Model" where
  "add_int_var nm target m = (IntVar (length (int_vars m)), m\<lparr>int_vars := int_vars m @ [(nm, target)]\<rparr>)"

definition add_bool_state_fun :: "expr \<Rightarrow> Model \<Rightarrow> expr \<times> Model" where
  "add_bool_state_fun c m =
     (BoolFun (length (bool_state_funs m)), m\<lparr>bool_state_funs := bool_state_funs m @ [c]\<rparr>)"

definition add_transition :: "Transition \<Rightarrow> Model \<Rightarrow> Model" where
  "add_transition t m = m\<lparr>transitions := transitions m @ [t]\<rparr>"

definition add_base_case :: "expr list \<Rightarrow> Model \<Rightarrow> Model" where
  "add_base_case cs m = m\<lparr>base_cases := base_cases m @ [cs]\<rparr>"

section \<open>The transformer and its parser\<close>

record transformer =
  detected_axioms :: bool
  detected_conditional_effects :: bool
  model :: Model
  init :: "(int \<times> int) list"
  goal :: "(int \<times> int) list"
  variables :: "(int \<times> Variable) list"
  rules :: "Rule list"
  operators :: "Operator list"
  axiom_heads :: "(int \<times> Rule list) list"
  axiom_edges :: "(int \<times> int list) list"
  didp_variables :: "(int \<times> expr) list"

text \<open>
  The document is the list of its lines (\<open>sas_content.splitlines()\<close>). \<open>get_line()\<close>
  takes the head of the remaining lines and returns \<open>None\<close> when there is none; each
  parser below returns the lines that are left.

  \<open>int(get_line())\<close>: a \<open>TypeError\<close> on \<open>None\<close>, a \<open>ValueError\<close> on a line
  that is no integer.
\<close>

definition int_line :: "string list \<Rightarrow> error + (int \<times> string list)" where
  "int_line ls =
     (case ls of [] \<Rightarrow> Inl TypeError
      | l # ls' \<Rightarrow> (case py_int l of None \<Rightarrow> Inl ValueError | Some n \<Rightarrow> Inr (n, ls')))"

text \<open>
  The variable block. Of the \<open>n_values\<close> lines read for the labels, those past the end
  of the document are \<open>None\<close>; then the next \<open>get_line()\<close> is \<open>None\<close> too and the
  \<open>end_variable\<close> assertion fails, so a stored label is always a string.
\<close>

definition parse_variable :: "transformer \<Rightarrow> string list \<Rightarrow> error + (transformer \<times> string list)" where
  "parse_variable st ls =
     (case ls of [] \<Rightarrow> Inl TypeError
      | name # ls1 \<Rightarrow>
     (case int_line ls1 of Inl e \<Rightarrow> Inl e
      | Inr (axiom_layer, ls2) \<Rightarrow>
     (case int_line ls2 of Inl e \<Rightarrow> Inl e
      | Inr (n_values, ls3) \<Rightarrow>
     (let values = take (nat n_values) ls3 in
      case drop (nat n_values) ls3 of [] \<Rightarrow> Inl AssertionError
      | l # ls4 \<Rightarrow>
        if l \<noteq> ''end_variable'' then Inl AssertionError
        else let i = length (variables st) in
          if ''var'' @ str_nat i \<noteq> name then Inl AssertionError
          else Inr (st\<lparr>variables :=
                      AList.update (int i)
                        \<lparr>var_name = name, var_values = values, var_axiom_layer = axiom_layer\<rparr>
                        (variables st)\<rparr>, ls4)))))"

text \<open>
  The precondition pairs of a rule block. The membership test is made on \<open>var_index\<close>
  while it is still the string read from the line; the key stored is its integer value.
\<close>

fun rule_pairs :: "nat \<Rightarrow> (int \<times> int) list \<Rightarrow> string list
    \<Rightarrow> error + ((int \<times> int) list \<times> string list)" where
  "rule_pairs 0 preconditions ls = Inr (preconditions, ls)"
| "rule_pairs (Suc n) preconditions ls =
     (case ls of [] \<Rightarrow> Inl AttributeError
      | l # ls' \<Rightarrow>
     (case split l of
        [var_index, value] \<Rightarrow>
          (case py_int value of None \<Rightarrow> Inl ValueError
           | Some val \<Rightarrow>
               if contains (KStr var_index) preconditions then Inl AssertionError
               else (case py_int var_index of None \<Rightarrow> Inl ValueError
                     | Some k \<Rightarrow> rule_pairs n (AList.update k val preconditions) ls'))
      | _ \<Rightarrow> Inl ValueError))"

definition parse_rule :: "transformer \<Rightarrow> string list \<Rightarrow> error + (transformer \<times> string list)" where
  "parse_rule st0 ls =
     (let st = st0\<lparr>detected_axioms := True\<rparr> in
      case int_line ls of Inl e \<Rightarrow> Inl e
      | Inr (n_preconditions, ls1) \<Rightarrow>
     (case rule_pairs (nat n_preconditions) [] ls1 of Inl e \<Rightarrow> Inl e
      | Inr (preconditions, ls2) \<Rightarrow>
     (case ls2 of [] \<Rightarrow> Inl AttributeError
      | l # ls3 \<Rightarrow>
     (let toks = split l in
      if length toks \<noteq> 3 then Inl AssertionError
      else (case py_int (toks ! 0) of None \<Rightarrow> Inl ValueError
      | Some var \<Rightarrow>
     (case py_int (toks ! 2) of None \<Rightarrow> Inl ValueError
      | Some val \<Rightarrow>
     (case map_of (variables st) var of None \<Rightarrow> Inl KeyError
      | Some v \<Rightarrow>
        if length (var_values v) \<noteq> 2 then Inl AssertionError
        else if \<not> startswith (var_values v ! 0) ''Atom'' then Inl AssertionError
        else if \<not> startswith (var_values v ! 1) ''NegatedAtom'' then Inl AssertionError
        else if val \<noteq> 0 then Inl AssertionError
        else let rule = \<lparr>rule_preconditions = preconditions, rule_var = var, rule_val = val\<rparr> in
          (case ls3 of [] \<Rightarrow> Inl AssertionError
           | e # ls4 \<Rightarrow>
             if e \<noteq> ''end_rule'' then Inl AssertionError
             else Inr (st\<lparr>rules := rules st @ [rule],
                         axiom_heads :=
                           AList.update var (get_or [] (axiom_heads st) var @ [rule]) (axiom_heads st),
                         axiom_edges :=
                           AList.update var
                             (List.union (map fst preconditions) (get_or [] (axiom_edges st) var))
                             (axiom_edges st)\<rparr>, ls4)))))))))"


text \<open>
  The pairs of an operator's precondition list and of the goal block: here the key is
  converted before the membership test.
\<close>

fun int_pairs :: "nat \<Rightarrow> (int \<times> int) list \<Rightarrow> string list
    \<Rightarrow> error + ((int \<times> int) list \<times> string list)" where
  "int_pairs 0 d ls = Inr (d, ls)"
| "int_pairs (Suc n) d ls =
     (case ls of [] \<Rightarrow> Inl AttributeError
      | l # ls' \<Rightarrow>
     (case split l of
        [var, val] \<Rightarrow>
          (case py_int var of None \<Rightarrow> Inl ValueError
           | Some var' \<Rightarrow>
          (case py_int val of None \<Rightarrow> Inl ValueError
           | Some val' \<Rightarrow>
               if contains (KInt var') d then Inl AssertionError
               else int_pairs n (AList.update var' val' d) ls'))
      | _ \<Rightarrow> Inl ValueError))"

text \<open>\<open>int(toks[i])\<close>.\<close>

definition tok_int :: "string list \<Rightarrow> nat \<Rightarrow> error + int" where
  "tok_int toks i =
     (if length toks \<le> i then Inl IndexError
      else (case py_int (toks ! i) of None \<Rightarrow> Inl ValueError | Some n \<Rightarrow> Inr n))"

text \<open>
  The effect records of an operator. The state of the loop is the conditional-effects
  flag and the two dictionaries; a record with a guard sets the flag and is skipped.
\<close>

fun effect_records :: "nat \<Rightarrow> bool \<times> (int \<times> int) list \<times> (int \<times> int) list \<Rightarrow> string list
    \<Rightarrow> error + ((bool \<times> (int \<times> int) list \<times> (int \<times> int) list) \<times> string list)" where
  "effect_records 0 acc ls = Inr (acc, ls)"
| "effect_records (Suc n) (flag, preconditions, effects) ls =
     (case ls of [] \<Rightarrow> Inl AttributeError
      | l # ls' \<Rightarrow>
     (let toks = split l in
      case tok_int toks 0 of Inl e \<Rightarrow> Inl e
      | Inr cond \<Rightarrow>
     (case tok_int toks 1 of Inl e \<Rightarrow> Inl e
      | Inr var \<Rightarrow>
     (case tok_int toks 2 of Inl e \<Rightarrow> Inl e
      | Inr pre \<Rightarrow>
     (case tok_int toks 3 of Inl e \<Rightarrow> Inl e
      | Inr post \<Rightarrow>
        if cond \<noteq> 0 then effect_records n (True, preconditions, effects) ls'
        else if contains (KInt var) preconditions then Inl AssertionError
        else if contains (KInt var) effects then Inl AssertionError
        else effect_records n
               (flag, AList.update var pre preconditions, AList.update var post effects) ls')))))"

text \<open>
  The cost line: \<open>float(get_line())\<close>, then
  \<open>assert int(round(cost)) == float(cost)\<close> and \<open>cost = int(round(cost))\<close>.
\<close>

definition cost_line :: "(string \<Rightarrow> pyfloat option) \<Rightarrow> string list \<Rightarrow> error + (int \<times> string list)" where
  "cost_line flt ls =
     (case ls of [] \<Rightarrow> Inl TypeError
      | l # ls' \<Rightarrow>
     (case flt l of None \<Rightarrow> Inl ValueError
      | Some cost \<Rightarrow>
     (case py_round cost of Inl e \<Rightarrow> Inl e
      | Inr r \<Rightarrow> if int_eq_float r cost then Inr (r, ls') else Inl AssertionError)))"

definition parse_operator :: "(string \<Rightarrow> pyfloat option) \<Rightarrow> transformer \<Rightarrow> string list
    \<Rightarrow> error + (transformer \<times> string list)" where
  "parse_operator flt st ls =
     (case ls of [] \<Rightarrow> Inl TypeError
      | name # ls1 \<Rightarrow>
     (case int_line ls1 of Inl e \<Rightarrow> Inl e
      | Inr (n_preconditions, ls2) \<Rightarrow>
     (case int_pairs (nat n_preconditions) [] ls2 of Inl e \<Rightarrow> Inl e
      | Inr (preconditions, ls3) \<Rightarrow>
     (case int_line ls3 of Inl e \<Rightarrow> Inl e
      | Inr (n_effects, ls4) \<Rightarrow>
     (case effect_records (nat n_effects) (detected_conditional_effects st, preconditions, []) ls4 of
        Inl e \<Rightarrow> Inl e
      | Inr ((flag, preconditions', effects), ls5) \<Rightarrow>
     (case cost_line flt ls5 of Inl e \<Rightarrow> Inl e
      | Inr (cost, ls6) \<Rightarrow>
     (case ls6 of [] \<Rightarrow> Inl AssertionError
      | e # ls7 \<Rightarrow>
        if e \<noteq> ''end_operator'' then Inl AssertionError
        else Inr (st\<lparr>detected_conditional_effects := flag,
                    operators := operators st @
                      [\<lparr>op_name = name, op_preconditions = preconditions',
                        op_effects = effects, op_cost = cost\<rparr>]\<rparr>, ls7))))))))"

definition parse_goal :: "transformer \<Rightarrow> string list \<Rightarrow> error + (transformer \<times> string list)" where
  "parse_goal st ls =
     (case int_line ls of Inl e \<Rightarrow> Inl e
      | Inr (n_goals, ls1) \<Rightarrow>
     (case int_pairs (nat n_goals) (goal st) ls1 of Inl e \<Rightarrow> Inl e
      | Inr (g, ls2) \<Rightarrow>
     (case ls2 of [] \<Rightarrow> Inl AssertionError
      | e # ls3 \<Rightarrow>
        if e \<noteq> ''end_goal'' then Inl AssertionError
        else Inr (st\<lparr>goal := g\<rparr>, ls3))))"

text \<open>The initial-state block: one value for each of \<open>range(len(self._variables))\<close>.\<close>

fun state_values :: "nat \<Rightarrow> nat \<Rightarrow> (int \<times> int) list \<Rightarrow> string list
    \<Rightarrow> error + ((int \<times> int) list \<times> string list)" where
  "state_values 0 var d ls = Inr (d, ls)"
| "state_values (Suc n) var d ls =
     (case int_line ls of Inl e \<Rightarrow> Inl e
      | Inr (val, ls') \<Rightarrow> state_values n (Suc var) (AList.update (int var) val d) ls')"

definition parse_state :: "transformer \<Rightarrow> string list \<Rightarrow> error + (transformer \<times> string list)" where
  "parse_state st ls =
     (case state_values (length (variables st)) 0 (init st) ls of Inl e \<Rightarrow> Inl e
      | Inr (d, ls1) \<Rightarrow>
     (case ls1 of [] \<Rightarrow> Inl AssertionError
      | e # ls2 \<Rightarrow>
        if e \<noteq> ''end_state'' then Inl AssertionError
        else Inr (st\<lparr>init := d\<rparr>, ls2)))"

text \<open>
  One round of the \<open>while True\<close> loop after a line was read: the block the line opens
  is parsed; any other line is skipped.
\<close>

definition parse_block :: "(string \<Rightarrow> pyfloat option) \<Rightarrow> transformer \<Rightarrow> string \<Rightarrow> string list
    \<Rightarrow> error + (transformer \<times> string list)" where
  "parse_block flt st line ls =
     (if line = ''begin_variable'' then parse_variable st ls
      else if line = ''begin_rule'' then parse_rule st ls
      else if line = ''begin_operator'' then parse_operator flt st ls
      else if line = ''begin_goal'' then parse_goal st ls
      else if line = ''begin_state'' then parse_state st ls
      else Inr (st, ls))"

lemma int_line_length: "int_line ls = Inr (n, ls') \<Longrightarrow> length ls' < length ls"
  by (auto simp: int_line_def split: list.splits option.splits)

lemma rule_pairs_length: "rule_pairs n d ls = Inr (d', ls') \<Longrightarrow> length ls' \<le> length ls"
proof (induction n arbitrary: d ls)
  case 0
  then show ?case by simp
next
  case (Suc n)
  then show ?case
    by (fastforce split: list.splits option.splits if_splits)
qed

lemma int_pairs_length: "int_pairs n d ls = Inr (d', ls') \<Longrightarrow> length ls' \<le> length ls"
proof (induction n arbitrary: d ls)
  case 0
  then show ?case by simp
next
  case (Suc n)
  then show ?case
    by (fastforce split: list.splits option.splits if_splits)
qed

lemma effect_records_length:
  "effect_records n acc ls = Inr (acc', ls') \<Longrightarrow> length ls' \<le> length ls"
proof (induction n arbitrary: acc ls)
  case 0
  then show ?case by simp
next
  case (Suc n)
  obtain flag pre eff where acc: "acc = (flag, pre, eff)"
    by (cases acc) auto
  from Suc.prems show ?case
    unfolding acc
    by (auto simp: Let_def split: list.splits sum.splits if_splits dest!: Suc.IH)
qed

lemma state_values_length:
  "state_values n var d ls = Inr (d', ls') \<Longrightarrow> length ls' \<le> length ls"
proof (induction n arbitrary: var d ls)
  case 0
  then show ?case by simp
next
  case (Suc n)
  then show ?case
    by (fastforce split: sum.splits dest: int_line_length)
qed

lemma cost_line_length: "cost_line flt ls = Inr (c, ls') \<Longrightarrow> length ls' < length ls"
  by (auto simp: cost_line_def split: list.splits option.splits sum.splits if_splits)


lemma drop_Cons_length: "drop n xs = y # ys \<Longrightarrow> length ys < length xs"
proof -
  assume a: "drop n xs = y # ys"
  have "length (drop n xs) \<le> length xs" by simp
  with a show ?thesis by simp
qed

lemma parse_variable_length:
  "parse_variable st ls = Inr (st', ls') \<Longrightarrow> length ls' \<le> length ls"
  unfolding parse_variable_def
  by (auto simp: Let_def split: list.splits sum.splits if_splits
           dest!: int_line_length drop_Cons_length)

lemma parse_rule_length:
  "parse_rule st ls = Inr (st', ls') \<Longrightarrow> length ls' \<le> length ls"
  unfolding parse_rule_def
  by (auto simp: Let_def split: list.splits sum.splits option.splits if_splits
           dest!: int_line_length rule_pairs_length)

lemma parse_operator_length:
  "parse_operator flt st ls = Inr (st', ls') \<Longrightarrow> length ls' \<le> length ls"
  unfolding parse_operator_def
  by (auto split: list.splits sum.splits if_splits
           dest!: int_line_length int_pairs_length effect_records_length cost_line_length)

lemma parse_goal_length:
  "parse_goal st ls = Inr (st', ls') \<Longrightarrow> length ls' \<le> length ls"
  unfolding parse_goal_def
  by (auto split: list.splits sum.splits if_splits dest!: int_line_length int_pairs_length)

lemma parse_state_length:
  "parse_state st ls = Inr (st', ls') \<Longrightarrow> length ls' \<le> length ls"
  unfolding parse_state_def
  by (auto split: list.splits sum.splits if_splits dest!: state_values_length)

lemma parse_block_length:
  "parse_block flt st line ls = Inr (st', ls') \<Longrightarrow> length ls' \<le> length ls"
  unfolding parse_block_def
  by (auto split: if_splits
           dest: parse_variable_length parse_rule_length parse_operator_length
                 parse_goal_length parse_state_length)

text \<open>
  The \<open>while True\<close> loop of \<open>_parse\<close>: it ends when \<open>get_line()\<close> returns
  \<open>None\<close>. An exception leaves the constructor, so no transformer exists then.
\<close>

function parse_loop :: "(string \<Rightarrow> pyfloat option) \<Rightarrow> transformer \<Rightarrow> string list \<Rightarrow> error + transformer" where
  "parse_loop flt st [] = Inr st"
| "parse_loop flt st (line # ls) =
     (case parse_block flt st line ls of Inl e \<Rightarrow> Inl e
      | Inr (st', ls') \<Rightarrow> parse_loop flt st' ls')"
  by pat_completeness auto
termination
proof (relation "measure (\<lambda>(flt, st, ls). length ls)")
  show "wf (measure (\<lambda>(flt, st, ls). length ls))" by simp
next
  fix flt :: "string \<Rightarrow> pyfloat option" and st :: transformer and line :: string
    and ls :: "string list" and x :: "transformer \<times> string list" and st' ls'
  assume "parse_block flt st line ls = Inr x" and "(st', ls') = x"
  then have "length ls' \<le> length ls"
    using parse_block_length [of flt st line ls st' ls'] by simp
  then show "((flt, st', ls'), (flt, st, line # ls)) \<in> measure (\<lambda>(flt, st, ls). length ls)"
    by simp
qed

text \<open>
  \<open>__init__\<close> clears the two flags and creates the empty model; \<open>_parse\<close> starts from
  empty dictionaries and lists. (\<open>_didp_variables\<close> is created by
  \<open>_handle_variables\<close>; it is empty until then.)
\<close>

definition new_transformer :: transformer where
  "new_transformer =
     \<lparr>detected_axioms = False, detected_conditional_effects = False, model = empty_model,
      init = [], goal = [], variables = [], rules = [], operators = [],
      axiom_heads = [], axiom_edges = [], didp_variables = []\<rparr>"

definition parse :: "(string \<Rightarrow> pyfloat option) \<Rightarrow> string list \<Rightarrow> error + transformer" where
  "parse flt sas_lines = parse_loop flt new_transformer sas_lines"


section \<open>The encoder\<close>

text \<open>
  The handlers change the transformer in place. When one raises, the transformer as it
  is at that moment is returned with the exception (\<open>Inl\<close>).
\<close>

fun register_variables :: "(int \<times> Variable) list \<Rightarrow> transformer \<Rightarrow> (error \<times> transformer) + transformer" where
  "register_variables [] st = Inr st"
| "register_variables ((i, variable) # vs) st =
     (if contains (KInt i) (axiom_heads st) then register_variables vs st
      else (case map_of (init st) i of None \<Rightarrow> Inl (KeyError, st)
            | Some target \<Rightarrow>
                (case add_int_var (var_name variable) target (model st) of
                   (var, m) \<Rightarrow>
                     register_variables vs
                       (st\<lparr>model := m, didp_variables := AList.update i var (didp_variables st)\<rparr>))))"

definition handle_variables :: "transformer \<Rightarrow> (error \<times> transformer) + transformer" where
  "handle_variables st = register_variables (variables st) (st\<lparr>didp_variables := []\<rparr>)"

fun precondition_list :: "transformer \<Rightarrow> (int \<times> int) list \<Rightarrow> error + expr list" where
  "precondition_list st [] = Inr []"
| "precondition_list st ((var, val) # ps) =
     (if val = - 1 then precondition_list st ps
      else (case map_of (didp_variables st) var of None \<Rightarrow> Inl KeyError
            | Some h \<Rightarrow>
                (case precondition_list st ps of Inl e \<Rightarrow> Inl e
                 | Inr cs \<Rightarrow>
                     Inr ((if contains (KInt var) (axiom_heads st) then h else EqC h val) # cs))))"

fun effect_list :: "transformer \<Rightarrow> (int \<times> int) list \<Rightarrow> error + (expr \<times> int) list" where
  "effect_list st [] = Inr []"
| "effect_list st ((var, val) # es) =
     (if contains (KInt var) (axiom_heads st) then Inl AssertionError
      else (case map_of (didp_variables st) var of None \<Rightarrow> Inl KeyError
            | Some h \<Rightarrow>
                (case effect_list st es of Inl e \<Rightarrow> Inl e
                 | Inr effs \<Rightarrow> Inr ((h, val) # effs))))"

fun add_operators :: "Operator list \<Rightarrow> transformer \<Rightarrow> (error \<times> transformer) + transformer" where
  "add_operators [] st = Inr st"
| "add_operators (op # ops) st =
     (case precondition_list st (op_preconditions op) of Inl e \<Rightarrow> Inl (e, st)
      | Inr pre \<Rightarrow>
     (case effect_list st (op_effects op) of Inl e \<Rightarrow> Inl (e, st)
      | Inr eff \<Rightarrow>
          add_operators ops
            (st\<lparr>model :=
                 add_transition
                   \<lparr>t_name = op_name op, t_cost = op_cost op,
                    t_preconditions = pre, t_effects = eff\<rparr> (model st)\<rparr>)))"

definition handle_operators :: "transformer \<Rightarrow> (error \<times> transformer) + transformer" where
  "handle_operators st = add_operators (operators st) st"

fun goal_conditions :: "transformer \<Rightarrow> (int \<times> int) list \<Rightarrow> error + expr list" where
  "goal_conditions st [] = Inr []"
| "goal_conditions st ((var, val) # gs) =
     (if contains (KInt var) (axiom_heads st) then
        (if val = 1 then
           (case map_of (didp_variables st) var of None \<Rightarrow> Inl KeyError
            | Some h \<Rightarrow>
                (case goal_conditions st gs of Inl e \<Rightarrow> Inl e | Inr cs \<Rightarrow> Inr (h # cs)))
         else if val \<noteq> 0 then Inl AssertionError
         else
           (case map_of (didp_variables st) var of None \<Rightarrow> Inl KeyError
            | Some h \<Rightarrow>
                (case goal_conditions st gs of Inl e \<Rightarrow> Inl e | Inr cs \<Rightarrow> Inr (Neg h # cs))))
      else
        (case map_of (didp_variables st) var of None \<Rightarrow> Inl KeyError
         | Some h \<Rightarrow>
             (case goal_conditions st gs of Inl e \<Rightarrow> Inl e | Inr cs \<Rightarrow> Inr (EqC h val # cs))))"

definition handle_goal :: "transformer \<Rightarrow> (error \<times> transformer) + transformer" where
  "handle_goal st =
     (case goal_conditions st (goal st) of Inl e \<Rightarrow> Inl (e, st)
      | Inr base_case \<Rightarrow> Inr (st\<lparr>model := add_base_case base_case (model st)\<rparr>))"

definition unsupported_message :: string where
  "unsupported_message = ''Axioms and conditional effects are not yet supported.''"

definition transform :: "transformer \<Rightarrow> (error \<times> transformer) + transformer" where
  "transform st =
     (if detected_axioms st \<or> detected_conditional_effects st
      then Inl (NotImplementedError unsupported_message, st)
      else (case handle_variables st of Inl x \<Rightarrow> Inl x
            | Inr st1 \<Rightarrow>
           (case handle_operators st1 of Inl x \<Rightarrow> Inl x
            | Inr st2 \<Rightarrow> handle_goal st2)))"


section \<open>The axiom stratifier\<close>

text \<open>
  The value iteration of \<open>_handle_axioms\<close>. \<open>cur_V\<close> starts with \<open>None\<close> for each
  head and is a copy of \<open>new_V\<close> from the first round on; a round reads \<open>cur_V\<close>
  and writes \<open>new_V\<close>. The loop has no bound on its rounds: not returning is the value
  \<open>None\<close> of \<open>relax\<close>.
\<close>

definition is_diff :: "(int \<times> int option) list \<Rightarrow> (int \<times> int) list \<Rightarrow> bool" where
  "is_diff cur_V new_V = list_ex (\<lambda>(i, c). map_of new_V i \<noteq> c) cur_V"

definition layer_update :: "(int \<times> int) list \<Rightarrow> int list \<Rightarrow> int" where
  "layer_update cur_V body =
     fold (\<lambda>i update. case map_of cur_V i of None \<Rightarrow> update | Some c \<Rightarrow> max update (c + 1)) body 1"

definition relax_round :: "(int \<times> int list) list \<Rightarrow> (int \<times> int) list \<Rightarrow> (int \<times> int) list
    \<Rightarrow> (int \<times> int) list" where
  "relax_round edges cur_V new_V =
     fold (\<lambda>(head, body) nv. AList.update head (layer_update cur_V body) nv) edges new_V"

partial_function (option) relax :: "(int \<times> int list) list \<Rightarrow> (int \<times> int option) list
    \<Rightarrow> (int \<times> int) list \<Rightarrow> (int \<times> int) list option" where
  "relax edges cur_V new_V =
     (if is_diff cur_V new_V
      then relax edges (map (\<lambda>(i, v). (i, Some v)) new_V) (relax_round edges new_V new_V)
      else Some new_V)"

declare relax.simps [code]

definition stratify :: "(int \<times> int list) list \<Rightarrow> (int \<times> int) list option" where
  "stratify edges = relax edges (map (\<lambda>(i, b). (i, None)) edges) (map (\<lambda>(i, b). (i, 0)) edges)"

text \<open>
  The rest of \<open>_handle_axioms\<close>: the heads are defined layer by layer. \<open>get_atom\<close> is
  the atom of one precondition pair of a rule.
\<close>

definition get_atom :: "transformer \<Rightarrow> int \<Rightarrow> int \<Rightarrow> error + expr" where
  "get_atom st var val =
     (if \<not> contains (KInt var) (axiom_heads st) then
        (case map_of (didp_variables st) var of None \<Rightarrow> Inl KeyError | Some h \<Rightarrow> Inr (EqC h val))
      else if val = 0 then
        (case map_of (didp_variables st) var of None \<Rightarrow> Inl KeyError | Some h \<Rightarrow> Inr h)
      else if val \<noteq> 1 then Inl AssertionError
      else
        (case map_of (didp_variables st) var of None \<Rightarrow> Inl KeyError | Some h \<Rightarrow> Inr (Neg h)))"

fun conj_atoms :: "transformer \<Rightarrow> expr \<Rightarrow> (int \<times> int) list \<Rightarrow> error + expr" where
  "conj_atoms st body [] = Inr body"
| "conj_atoms st body ((var, val) # ps) =
     (case get_atom st var val of Inl e \<Rightarrow> Inl e
      | Inr a \<Rightarrow> conj_atoms st (And body a) ps)"

text \<open>The loop over the rules of one head; the result is \<open>(trivial, bodies)\<close>.\<close>

fun rule_bodies :: "transformer \<Rightarrow> int \<Rightarrow> Rule list \<Rightarrow> expr list \<Rightarrow> error + (bool \<times> expr list)" where
  "rule_bodies st head [] bodies = Inr (False, bodies)"
| "rule_bodies st head (rule # rs) bodies =
     (if rule_var rule \<noteq> head then Inl AssertionError
      else (case rule_preconditions rule of [] \<Rightarrow> Inr (True, bodies)
            | (var, val) # ps \<Rightarrow>
                (case get_atom st var val of Inl e \<Rightarrow> Inl e
                 | Inr a \<Rightarrow>
                (case conj_atoms st a ps of Inl e \<Rightarrow> Inl e
                 | Inr body \<Rightarrow> rule_bodies st head rs (bodies @ [body])))))"

definition trigger_of :: "expr \<Rightarrow> bool \<Rightarrow> expr list \<Rightarrow> error + expr" where
  "trigger_of TRUE trivial bodies =
     (if trivial then Inr TRUE
      else (case bodies of [] \<Rightarrow> Inl IndexError
            | b # bs \<Rightarrow> Inr (fold (\<lambda>x trigger. Or trigger x) bs b)))"

fun define_heads :: "expr \<Rightarrow> int list \<Rightarrow> transformer \<Rightarrow> (error \<times> transformer) + transformer" where
  "define_heads TRUE [] st = Inr st"
| "define_heads TRUE (head # hs) st =
     (case map_of (axiom_heads st) head of None \<Rightarrow> Inl (KeyError, st)
      | Some rs \<Rightarrow>
     (case rule_bodies st head rs [] of Inl e \<Rightarrow> Inl (e, st)
      | Inr (trivial, bodies) \<Rightarrow>
     (case trigger_of TRUE trivial bodies of Inl e \<Rightarrow> Inl (e, st)
      | Inr trigger \<Rightarrow>
     (case add_bool_state_fun trigger (model st) of
        (f, m) \<Rightarrow>
          define_heads TRUE hs
            (st\<lparr>model := m, didp_variables := AList.update head f (didp_variables st)\<rparr>)))))"

fun define_layers :: "expr \<Rightarrow> int list \<Rightarrow> (int \<times> int list) list \<Rightarrow> transformer
    \<Rightarrow> (error \<times> transformer) + transformer" where
  "define_layers TRUE [] val_to_head st = Inr st"
| "define_layers TRUE (i # layers) val_to_head st =
     (case map_of val_to_head i of None \<Rightarrow> Inl (KeyError, st)
      | Some hs \<Rightarrow>
     (case define_heads TRUE hs st of Inl x \<Rightarrow> Inl x
      | Inr st' \<Rightarrow> define_layers TRUE layers val_to_head st'))"

definition group_heads :: "(int \<times> int) list \<Rightarrow> (int \<times> int list) list" where
  "group_heads new_V =
     fold (\<lambda>(head, val) d.
             AList.update val (get_or [] d val @ [head]) d)
       new_V []"

text \<open>The outer \<open>option\<close> is \<open>None\<close> when the value iteration does not return.\<close>

definition handle_axioms :: "transformer \<Rightarrow> ((error \<times> transformer) + transformer) option" where
  "handle_axioms st =
     (case didp_variables st of [] \<Rightarrow> Some (Inl (StopIteration, st))
      | (k, var) # rest \<Rightarrow>
     (case stratify (axiom_edges st) of None \<Rightarrow> None
      | Some new_V \<Rightarrow>
          Some (if set (map fst new_V) \<noteq> set (map fst (axiom_edges st))
                then Inl (AssertionError, st)
                else (case map snd new_V of [] \<Rightarrow> Inr st
                      | v # vs \<Rightarrow>
                          define_layers (EqE var var) [fold min vs v..fold max vs v]
                            (group_heads new_V) st))))"


section \<open>The call of the driver\<close>

text \<open>\<open>Sas2DypdlTransformer(sas_content).transform()\<close>, as the driver calls it.\<close>

definition translate :: "(string \<Rightarrow> pyfloat option) \<Rightarrow> string list \<Rightarrow> (error \<times> Model) + Model" where
  "translate flt sas_lines =
     (case parse flt sas_lines of Inl e \<Rightarrow> Inl (e, empty_model)
      | Inr st \<Rightarrow>
          (case transform st of Inl (e, st') \<Rightarrow> Inl (e, model st')
           | Inr st' \<Rightarrow> Inr (model st')))"

section \<open>Notions for stating the properties\<close>

text \<open>
  The rounds of the parser's loop: for each line that the loop reads as a possible block
  opener, the transformer before the round, the line, and the lines after it.
\<close>

function rounds :: "(string \<Rightarrow> pyfloat option) \<Rightarrow> transformer \<Rightarrow> string list
    \<Rightarrow> (transformer \<times> string \<times> string list) list" where
  "rounds flt st [] = []"
| "rounds flt st (line # ls) =
     (st, line, ls) #
     (case parse_block flt st line ls of Inl e \<Rightarrow> []
      | Inr (st', ls') \<Rightarrow> rounds flt st' ls')"
  by pat_completeness auto
termination
proof (relation "measure (\<lambda>(flt, st, ls). length ls)")
  show "wf (measure (\<lambda>(flt, st, ls). length ls))" by simp
next
  fix flt :: "string \<Rightarrow> pyfloat option" and st :: transformer and line :: string
    and ls :: "string list" and x :: "transformer \<times> string list" and st' ls'
  assume "parse_block flt st line ls = Inr x" and "(st', ls') = x"
  then have "length ls' \<le> length ls"
    using parse_block_length [of flt st line ls st' ls'] by simp
  then show "((flt, st', ls'), (flt, st, line # ls)) \<in> measure (\<lambda>(flt, st, ls). length ls)"
    by simp
qed

text \<open>The round reads the line \<open>opener\<close>.\<close>

definition opens :: "string \<Rightarrow> transformer \<times> string \<times> string list \<Rightarrow> bool" where
  "opens opener r = (fst (snd r) = opener)"

text \<open>
  An effect record with a guard: its first token is a non-zero count. An operator block
  (the lines after \<open>begin_operator\<close>) has a guarded effect when one of its effect
  records has a guard.
\<close>

definition has_guard :: "string \<Rightarrow> bool" where
  "has_guard l = (case tok_int (split l) 0 of Inl e \<Rightarrow> False | Inr cond \<Rightarrow> cond \<noteq> 0)"

definition guarded_operator :: "string list \<Rightarrow> bool" where
  "guarded_operator ls =
     (case ls of [] \<Rightarrow> False
      | name # ls1 \<Rightarrow>
     (case int_line ls1 of Inl e \<Rightarrow> False
      | Inr (n_preconditions, ls2) \<Rightarrow>
     (case int_line (drop (nat n_preconditions) ls2) of Inl e \<Rightarrow> False
      | Inr (n_effects, ls4) \<Rightarrow> list_ex has_guard (take (nat n_effects) ls4))))"

text \<open>A round that opens an operator block with a guarded effect record.\<close>

definition guarded_round :: "transformer \<times> string \<times> string list \<Rightarrow> bool" where
  "guarded_round r \<longleftrightarrow> opens ''begin_operator'' r \<and> guarded_operator (snd (snd r))"

text \<open>A round that opens an initial-state block when a variable has been declared.\<close>

definition state_round :: "transformer \<times> string \<times> string list \<Rightarrow> bool" where
  "state_round r \<longleftrightarrow> opens ''begin_state'' r \<and> variables (fst r) \<noteq> []"

text \<open>The domain of a derived variable: two labels, \<open>Atom\<close> first.\<close>

definition boolean_domain :: "Variable \<Rightarrow> bool" where
  "boolean_domain v \<longleftrightarrow>
     length (var_values v) = 2 \<and> startswith (var_values v ! 0) ''Atom''
     \<and> startswith (var_values v ! 1) ''NegatedAtom''"

text \<open>A stored rule proves the value \<open>0\<close> of a variable with a boolean domain.\<close>

definition valid_rule :: "transformer \<Rightarrow> Rule \<Rightarrow> bool" where
  "valid_rule st r \<longleftrightarrow>
     rule_val r = 0
     \<and> (case map_of (variables st) (rule_var r) of None \<Rightarrow> False | Some v \<Rightarrow> boolean_domain v)"

text \<open>
  The head that a rule block declares (the block is the lines after \<open>begin_rule\<close>):
  the count and the precondition pairs are read, the next line has three tokens, the
  first and the third are integers, and the first is the id of a declared variable. The
  value is the head variable, the new value and the declaration of the head variable;
  \<open>None\<close> when the block is not of this form.
\<close>

definition rule_head :: "transformer \<Rightarrow> string list \<Rightarrow> (int \<times> int \<times> Variable) option" where
  "rule_head st ls =
     (case int_line ls of Inl e \<Rightarrow> None
      | Inr (n_preconditions, ls1) \<Rightarrow>
     (case rule_pairs (nat n_preconditions) [] ls1 of Inl e \<Rightarrow> None
      | Inr (preconditions, ls2) \<Rightarrow>
     (case ls2 of [] \<Rightarrow> None
      | l # ls3 \<Rightarrow>
        if length (split l) \<noteq> 3 then None
        else (case py_int (split l ! 0) of None \<Rightarrow> None
      | Some var \<Rightarrow>
     (case py_int (split l ! 2) of None \<Rightarrow> None
      | Some new \<Rightarrow>
     (case map_of (variables st) var of None \<Rightarrow> None
      | Some v \<Rightarrow> Some (var, new, v)))))))"

text \<open>
  A round whose block declares a head with the new value \<open>0\<close> on a boolean domain, and
  a round whose block declares a head that has another new value or another domain.
\<close>

definition true_head :: "transformer \<times> string \<times> string list \<Rightarrow> bool" where
  "true_head r =
     (case rule_head (fst r) (snd (snd r)) of None \<Rightarrow> False
      | Some (var, new, v) \<Rightarrow> new = 0 \<and> boolean_domain v)"

definition refused_head :: "transformer \<times> string \<times> string list \<Rightarrow> bool" where
  "refused_head r =
     (case rule_head (fst r) (snd (snd r)) of None \<Rightarrow> False
      | Some (var, new, v) \<Rightarrow> new \<noteq> 0 \<or> \<not> boolean_domain v)"

definition refused_round :: "transformer \<times> string \<times> string list \<Rightarrow> bool" where
  "refused_round r \<longleftrightarrow> opens ''begin_rule'' r \<and> refused_head r"

text \<open>
  The head variable and the new value of a stored rule, and those that the block of a
  round declares.
\<close>

definition stored_head :: "Rule \<Rightarrow> (int \<times> int) option" where
  "stored_head r = Some (rule_var r, rule_val r)"

definition read_head :: "transformer \<times> string \<times> string list \<Rightarrow> (int \<times> int) option" where
  "read_head r = map_option (\<lambda>(var, new, v). (var, new)) (rule_head (fst r) (snd (snd r)))"

text \<open>The ids are the positions, and each name is \<open>var\<close> followed by the id.\<close>

definition dense_ids :: "transformer \<Rightarrow> bool" where
  "dense_ids st \<longleftrightarrow>
     map fst (variables st) = map int [0..<length (variables st)]
     \<and> list_all (\<lambda>(i, v). var_name v = ''var'' @ str_nat (nat i)) (variables st)"

text \<open>
  What holds of every transformer while it is parsed: the model is untouched, and there
  are heads only when the axioms flag is set.
\<close>

definition untouched :: "transformer \<Rightarrow> bool" where
  "untouched st \<longleftrightarrow>
     model st = empty_model \<and> didp_variables st = []
     \<and> (detected_axioms st \<or> axiom_heads st = [])"

text \<open>The keys of a dictionary are \<open>j, j + 1, \<dots>\<close> in this order.\<close>

fun keys_from :: "nat \<Rightarrow> (int \<times> 'a) list \<Rightarrow> bool" where
  "keys_from j [] = True"
| "keys_from j (p # vs) = (fst p = int j \<and> keys_from (Suc j) vs)"

text \<open>Every handle is the integer variable with the number of its id.\<close>

definition plain_handles :: "transformer \<Rightarrow> bool" where
  "plain_handles st \<longleftrightarrow> list_all (\<lambda>(k, h). h = IntVar (nat k)) (didp_variables st)"

text \<open>
  The precondition list that a transition gets from an operator's precondition
  dictionary when no variable is derived: one equality test for each entry whose value is
  not \<open>-1\<close>, on the state variable registered for the entry's variable.
\<close>

definition kept_preconditions :: "(int \<times> int) list \<Rightarrow> expr list" where
  "kept_preconditions ps =
     map (\<lambda>(var, val). EqC (IntVar (nat var)) val) (filter (\<lambda>(var, val). val \<noteq> - 1) ps)"

definition carries :: "Operator \<Rightarrow> Transition \<Rightarrow> bool" where
  "carries op t \<longleftrightarrow> t_name t = op_name op \<and> t_preconditions t = kept_preconditions (op_preconditions op)"

text \<open>
  How the modelling library reads a condition: \<open>s\<close> gives the value of each integer
  variable and \<open>f\<close> the truth of each boolean state function. The state functions are
  evaluated in the order of their registration, and a state is a base state when all
  conditions of one base case hold.
\<close>

fun holds :: "(nat \<Rightarrow> int) \<Rightarrow> (nat \<Rightarrow> bool) \<Rightarrow> expr \<Rightarrow> bool" where
  "holds s f (EqC (IntVar k) c) = (s k = c)"
| "holds s f (EqE (IntVar j) (IntVar k)) = (s j = s k)"
| "holds s f (BoolFun k) = f k"
| "holds s f (Neg e) = (\<not> holds s f e)"
| "holds s f (And a b) = (holds s f a \<and> holds s f b)"
| "holds s f (Or a b) = (holds s f a \<or> holds s f b)"
| "holds s f e = False"

definition fun_values :: "(nat \<Rightarrow> int) \<Rightarrow> expr list \<Rightarrow> bool list" where
  "fun_values s fs = fold (\<lambda>c vals. vals @ [holds s (\<lambda>k. k < length vals \<and> vals ! k) c]) fs []"

definition is_base_state :: "Model \<Rightarrow> (nat \<Rightarrow> int) \<Rightarrow> bool" where
  "is_base_state m s =
     (let vals = fun_values s (bool_state_funs m)
      in list_ex (list_all (holds s (\<lambda>k. k < length vals \<and> vals ! k))) (base_cases m))"

text \<open>
  A layering is a fixed point of the relaxation: it has the heads as its keys, and the
  layer of each head is the value that one more round gives it.
\<close>

definition fixed_point :: "(int \<times> int list) list \<Rightarrow> (int \<times> int) list \<Rightarrow> bool" where
  "fixed_point edges V \<longleftrightarrow>
     map fst V = map fst edges
     \<and> list_all (\<lambda>(h, body). map_of V h = Some (layer_update V body)) edges"

text \<open>
  The states of the value iteration: the first one, and those where \<open>cur_V\<close> is a copy
  of the previous \<open>new_V\<close> and \<open>new_V\<close> is its relaxation.
\<close>

definition relax_state :: "(int \<times> int list) list \<Rightarrow> (int \<times> int option) list \<Rightarrow> (int \<times> int) list \<Rightarrow> bool" where
  "relax_state e c n \<longleftrightarrow>
     distinct (map fst e) \<and> map fst n = map fst e
     \<and> ((c = map (\<lambda>(i, b). (i, None)) e \<and> n = map (\<lambda>(i, b). (i, 0)) e)
        \<or> (\<exists>prev. map fst prev = map fst e \<and> c = map (\<lambda>(i, v). (i, Some v)) prev
                  \<and> n = relax_round e prev prev))"

text \<open>The layers of the variables of a body that have a layer.\<close>

definition body_layers :: "(int \<times> int) list \<Rightarrow> int list \<Rightarrow> int set" where
  "body_layers V body = {a. \<exists>i \<in> set body. map_of V i = Some a}"

text \<open>The variables in the bodies of the rules with the head \<open>h\<close>.\<close>

definition body_vars :: "transformer \<Rightarrow> int \<Rightarrow> int set" where
  "body_vars st h = (\<Union>r \<in> {r \<in> set (rules st). rule_var r = h}. fst ` set (rule_preconditions r))"

text \<open>
  The dependency graph is that of the rules: its keys are distinct, they are the keys of
  \<open>_axiom_heads\<close> and the heads of the rules, and the set of a head holds the body
  variables of the head's rules.
\<close>

definition edges_of_rules :: "transformer \<Rightarrow> bool" where
  "edges_of_rules st \<longleftrightarrow>
     distinct (map fst (axiom_edges st))
     \<and> map fst (axiom_heads st) = map fst (axiom_edges st)
     \<and> fst ` set (axiom_edges st) = rule_var ` set (rules st)
     \<and> (\<forall>h. set (get_or [] (axiom_edges st) h) = body_vars st h)"

text \<open>
  A rank for the dependency graph: every head has a greater rank than the derived
  variables in its body. A graph has a rank exactly when it has no cycle.
\<close>

definition ranked :: "(int \<times> int list) list \<Rightarrow> (int \<Rightarrow> nat) \<Rightarrow> bool" where
  "ranked e r \<longleftrightarrow> (\<forall>(h, body) \<in> set e. \<forall>i \<in> set body. i \<in> fst ` set e \<longrightarrow> r i < r h)"

text \<open>
  The layers after \<open>k\<close> rounds of the value iteration, each round reading the layers
  of the round before; and the heads whose layer round \<open>k + 1\<close> changes.
\<close>

definition layers_after :: "(int \<times> int list) list \<Rightarrow> nat \<Rightarrow> (int \<times> int) list" where
  "layers_after e k = ((\<lambda>V. relax_round e V V) ^^ k) (map (\<lambda>(i, b). (i, 0)) e)"

definition changed :: "(int \<times> int list) list \<Rightarrow> nat \<Rightarrow> int \<Rightarrow> bool" where
  "changed e k h \<longleftrightarrow> get_or 0 (layers_after e (Suc k)) h \<noteq> get_or 0 (layers_after e k) h"

section \<open>Example documents\<close>

text \<open>Two boolean variables, \<open>var0\<close> and \<open>var1\<close>; and a third one, \<open>var2\<close>.\<close>

definition two_variables :: "string list" where
  "two_variables =
     [''begin_variable'', ''var0'', ''-1'', ''2'', ''Atom a'', ''NegatedAtom a'', ''end_variable'',
      ''begin_variable'', ''var1'', ''-1'', ''2'', ''Atom b'', ''NegatedAtom b'', ''end_variable'']"

definition three_variables :: "string list" where
  "three_variables = two_variables @
     [''begin_variable'', ''var2'', ''0'', ''2'', ''Atom c'', ''NegatedAtom c'', ''end_variable'']"

text \<open>
  A version block, which the loop skips, the two variables, an initial state, a goal on
  \<open>var1\<close> and one operator with the precondition \<open>var0 = 0\<close> and the effect record
  \<open>0 1 -1 1\<close> on \<open>var1\<close>.
\<close>

definition plain_doc :: "string list" where
  "plain_doc = [''begin_version'', ''3'', ''end_version''] @ two_variables @
     [''begin_state'', ''0'', ''0'', ''end_state'',
      ''begin_goal'', ''1'', ''1 1'', ''end_goal'',
      ''begin_operator'', ''op1'', ''1'', ''0 0'', ''1'', ''0 1 -1 1'', ''1'', ''end_operator'']"

text \<open>A first variable block that declares the name \<open>var1\<close>.\<close>

definition misnamed_doc :: "string list" where
  "misnamed_doc =
     [''begin_variable'', ''var1'', ''-1'', ''2'', ''Atom a'', ''NegatedAtom a'', ''end_variable'']"

text \<open>An operator with the cost line \<open>-3\<close>.\<close>

definition negative_cost_doc :: "string list" where
  "negative_cost_doc = two_variables @
     [''begin_state'', ''0'', ''0'', ''end_state'',
      ''begin_operator'', ''op1'', ''0'', ''1'', ''0 1 0 1'', ''-3'', ''end_operator'']"

text \<open>Two variables, a goal and an operator without guard, and no initial-state block.\<close>

definition no_state_doc :: "string list" where
  "no_state_doc = two_variables @
     [''begin_goal'', ''1'', ''1 1'', ''end_goal'',
      ''begin_operator'', ''op1'', ''1'', ''0 0'', ''1'', ''0 1 -1 1'', ''1'', ''end_operator'']"

text \<open>
  An operator whose only effect record has one guard condition, in a document without
  an initial-state block.
\<close>

definition guarded_doc :: "string list" where
  "guarded_doc = two_variables @
     [''begin_goal'', ''1'', ''1 1'', ''end_goal'',
      ''begin_operator'', ''op1'', ''0'', ''1'', ''1 0 0 1 -1 1'', ''1'', ''end_operator'']"

text \<open>A rule block for the head \<open>var1\<close> that lists \<open>var0\<close> twice.\<close>

definition duplicate_rule_doc :: "string list" where
  "duplicate_rule_doc = two_variables @
     [''begin_rule'', ''2'', ''0 0'', ''0 1'', ''1 1 0'', ''end_rule'']"

text \<open>The same two pairs in the precondition list of an operator, and in a goal block.\<close>

definition duplicate_operator_doc :: "string list" where
  "duplicate_operator_doc = two_variables @
     [''begin_operator'', ''op1'', ''2'', ''0 0'', ''0 1'', ''0'', ''1'', ''end_operator'']"

definition duplicate_goal_doc :: "string list" where
  "duplicate_goal_doc = two_variables @ [''begin_goal'', ''2'', ''0 0'', ''0 1'', ''end_goal'']"

text \<open>
  A rule block that proves the value \<open>1\<close> of \<open>var1\<close>.
\<close>

definition false_rule_doc :: "string list" where
  "false_rule_doc = two_variables @
     [''begin_state'', ''0'', ''0'', ''end_state'',
      ''begin_rule'', ''1'', ''0 0'', ''1 0 1'', ''end_rule'']"

text \<open>
  The lines of that rule block alone, and a document whose rule has a head with three
  values.
\<close>

definition false_rule_block :: "string list" where
  "false_rule_block = [''1'', ''0 0'', ''1 0 1'', ''end_rule'']"

definition many_valued_doc :: "string list" where
  "many_valued_doc =
     [''begin_variable'', ''var0'', ''-1'', ''3'', ''Atom a'', ''Atom b'', ''Atom c'', ''end_variable'',
      ''begin_rule'', ''0'', ''0 1 0'', ''end_rule'']"

text \<open>
  \<open>var1\<close> is derived: its rule proves it when \<open>var0 = 0\<close>. The goal asks for the value
  \<open>0\<close> of \<open>var1\<close>, the label \<open>Atom b\<close>.
\<close>

definition derived_goal_doc :: "string list" where
  "derived_goal_doc = two_variables @
     [''begin_state'', ''0'', ''1'', ''end_state'',
      ''begin_goal'', ''1'', ''1 0'', ''end_goal'',
      ''begin_rule'', ''1'', ''0 0'', ''1 1 0'', ''end_rule'']"

text \<open>
  Three variables, where \<open>var1\<close> is derived from \<open>var0\<close> and \<open>var2\<close> from \<open>var1\<close> and
  \<open>var0\<close>.
\<close>

definition layered_doc :: "string list" where
  "layered_doc = three_variables @
     [''begin_state'', ''0'', ''1'', ''1'', ''end_state'',
      ''begin_rule'', ''2'', ''1 0'', ''0 0'', ''2 1 0'', ''end_rule'',
      ''begin_rule'', ''1'', ''0 0'', ''1 1 0'', ''end_rule'']"

text \<open>
  The rules make \<open>var1\<close> and \<open>var2\<close> derived, and each of the two reads the
  other.
\<close>

definition cyclic_doc :: "string list" where
  "cyclic_doc = three_variables @
     [''begin_state'', ''0'', ''1'', ''1'', ''end_state'',
      ''begin_rule'', ''1'', ''2 0'', ''1 1 0'', ''end_rule'',
      ''begin_rule'', ''1'', ''1 0'', ''2 1 0'', ''end_rule'']"

text \<open>The dependency graph of \<open>cyclic_doc\<close>.\<close>

definition cycle_edges :: "(int \<times> int list) list" where
  "cycle_edges = [(1, [2]), (2, [1])]"

text \<open>The states of the value iteration on \<open>cycle_edges\<close>: round \<open>k\<close> reads \<open>k\<close> and writes \<open>k + 1\<close>.\<close>

definition cycle_state :: "(int \<times> int list) list \<Rightarrow> (int \<times> int option) list \<Rightarrow> (int \<times> int) list \<Rightarrow> bool" where
  "cycle_state e c n \<longleftrightarrow>
     e = cycle_edges \<and>
     ((c = [(1, None), (2, None)] \<and> n = [(1, 0), (2, 0)])
      \<or> (\<exists>k. 0 \<le> k \<and> c = [(1, Some k), (2, Some k)] \<and> n = [(1, k + 1), (2, k + 1)]))"

section \<open>What the block parsers return\<close>

lemma parse_variable_result:
  assumes "parse_variable st ls = Inr (st', ls')"
  obtains vals layer where
    "st' = st\<lparr>variables :=
                 AList.update (int (length (variables st)))
                   \<lparr>var_name = ''var'' @ str_nat (length (variables st)),
                    var_values = vals, var_axiom_layer = layer\<rparr> (variables st)\<rparr>"
  using assms unfolding parse_variable_def
  by (auto simp: Let_def split: list.splits sum.splits if_splits)

lemma parse_rule_result:
  assumes "parse_rule st ls = Inr (st', ls')"
  obtains pre var v where
    "st' = st\<lparr>detected_axioms := True,
                rules := rules st @ [\<lparr>rule_preconditions = pre, rule_var = var, rule_val = 0\<rparr>],
                axiom_heads :=
                  AList.update var
                    (get_or [] (axiom_heads st) var
                     @ [\<lparr>rule_preconditions = pre, rule_var = var, rule_val = 0\<rparr>])
                    (axiom_heads st),
                axiom_edges :=
                  AList.update var (List.union (map fst pre) (get_or [] (axiom_edges st) var))
                    (axiom_edges st)\<rparr>"
    and "map_of (variables st) var = Some v" and "boolean_domain v"
  using assms unfolding parse_rule_def boolean_domain_def
  by (auto simp: Let_def split: list.splits sum.splits option.splits if_splits)

lemma parse_rule_head:
  assumes "parse_rule st ls = Inr (st', ls')"
  obtains pre var v where "rule_head st ls = Some (var, 0, v)" and "boolean_domain v"
    and "rules st' = rules st @ [\<lparr>rule_preconditions = pre, rule_var = var, rule_val = 0\<rparr>]"
  using assms unfolding parse_rule_def rule_head_def boolean_domain_def
  by (auto simp: Let_def split: list.splits sum.splits option.splits if_splits)

lemma parse_rule_raises:
  assumes "rule_head st ls = Some (var, new, v)" and "new \<noteq> 0 \<or> \<not> boolean_domain v"
  shows "parse_rule st ls = Inl AssertionError"
  using assms unfolding parse_rule_def rule_head_def boolean_domain_def
  by (auto simp: Let_def split: list.splits sum.splits option.splits if_splits)

lemma parse_goal_result:
  assumes "parse_goal st ls = Inr (st', ls')"
  obtains g where "st' = st\<lparr>goal := g\<rparr>"
  using assms unfolding parse_goal_def
  by (auto split: list.splits sum.splits if_splits)

lemma parse_state_result:
  assumes "parse_state st ls = Inr (st', ls')"
  obtains d where "st' = st\<lparr>init := d\<rparr>"
  using assms unfolding parse_state_def
  by (auto split: list.splits sum.splits if_splits)

lemma parse_state_no_variables:
  "parse_state st ls = Inr (st', ls') \<Longrightarrow> variables st = [] \<Longrightarrow> init st' = init st"
  unfolding parse_state_def
  by (auto split: list.splits sum.splits if_splits)

lemma int_pairs_drop: "int_pairs n d ls = Inr (d', ls') \<Longrightarrow> ls' = drop n ls"
proof (induction n arbitrary: d ls)
  case 0
  then show ?case by simp
next
  case (Suc n)
  then show ?case
    by (fastforce split: list.splits option.splits if_splits)
qed

lemma has_guard_iff: "tok_int (split l) 0 = Inr c \<Longrightarrow> has_guard l = (c \<noteq> 0)"
  by (simp add: has_guard_def)

lemma effect_records_flag:
  "effect_records n (flag, pre, eff) ls = Inr ((flag', pre', eff'), ls')
   \<Longrightarrow> flag' = (flag \<or> list_ex has_guard (take n ls))"
proof (induction n arbitrary: flag pre eff ls)
  case 0
  then show ?case by simp
next
  case (Suc n)
  from Suc.prems obtain l rest where ls: "ls = l # rest"
    by (cases ls) auto
  from Suc.prems [unfolded ls] obtain cond var pre0 post
    where t: "tok_int (split l) 0 = Inr cond" "tok_int (split l) 1 = Inr var"
      "tok_int (split l) 2 = Inr pre0" "tok_int (split l) 3 = Inr post"
    by (auto simp: Let_def split: sum.splits)
  show ?case
  proof (cases "cond = 0")
    case True
    with Suc.prems [unfolded ls] t
    have "effect_records n (flag, AList.update var pre0 pre, AList.update var post eff) rest
          = Inr ((flag', pre', eff'), ls')"
      by (auto simp: Let_def split: if_splits)
    from Suc.IH [OF this] True t(1) show ?thesis
      by (simp add: ls has_guard_iff)
  next
    case False
    with Suc.prems [unfolded ls] t
    have "effect_records n (True, pre, eff) rest = Inr ((flag', pre', eff'), ls')"
      by (auto simp: Let_def)
    from Suc.IH [OF this] False t(1) show ?thesis
      by (simp add: ls has_guard_iff)
  qed
qed

lemma parse_operator_inv:
  assumes "parse_operator flt st ls = Inr (st', ls')"
  obtains name ls1 n_pre ls2 pre ls3 n_eff ls4 flag pre' eff ls5 cost ls6 where
    "ls = name # ls1" and "int_line ls1 = Inr (n_pre, ls2)"
    and "int_pairs (nat n_pre) [] ls2 = Inr (pre, ls3)"
    and "int_line ls3 = Inr (n_eff, ls4)"
    and "effect_records (nat n_eff) (detected_conditional_effects st, pre, []) ls4
           = Inr ((flag, pre', eff), ls5)"
    and "cost_line flt ls5 = Inr (cost, ls6)"
    and "st' = st\<lparr>detected_conditional_effects := flag,
                     operators := operators st @
                       [\<lparr>op_name = name, op_preconditions = pre', op_effects = eff,
                         op_cost = cost\<rparr>]\<rparr>"
  using assms unfolding parse_operator_def
  by (auto split: list.splits sum.splits if_splits)

lemma parse_operator_result:
  assumes "parse_operator flt st ls = Inr (st', ls')"
  obtains op where
    "st' = st\<lparr>detected_conditional_effects :=
                  (detected_conditional_effects st \<or> guarded_operator ls),
                operators := operators st @ [op]\<rparr>"
proof -
  from assms obtain name ls1 n_pre ls2 pre ls3 n_eff ls4 flag pre' eff ls5 cost ls6 where
    i: "ls = name # ls1" "int_line ls1 = Inr (n_pre, ls2)"
      "int_pairs (nat n_pre) [] ls2 = Inr (pre, ls3)"
      "int_line ls3 = Inr (n_eff, ls4)"
      "effect_records (nat n_eff) (detected_conditional_effects st, pre, []) ls4
           = Inr ((flag, pre', eff), ls5)"
      "st' = st\<lparr>detected_conditional_effects := flag,
                     operators := operators st @
                       [\<lparr>op_name = name, op_preconditions = pre', op_effects = eff,
                         op_cost = cost\<rparr>]\<rparr>"
    by (rule parse_operator_inv)
  have "ls3 = drop (nat n_pre) ls2"
    using i(3) by (rule int_pairs_drop)
  with i(1,2,4) have "guarded_operator ls = list_ex has_guard (take (nat n_eff) ls4)"
    by (simp add: guarded_operator_def)
  with effect_records_flag [OF i(5)]
  have "flag = (detected_conditional_effects st \<or> guarded_operator ls)"
    by simp
  with i(6) show ?thesis
    by (intro that) simp
qed

lemma parse_block_cases:
  assumes "parse_block flt st line ls = Inr (st', ls')"
  obtains (variable) "line = ''begin_variable''" "parse_variable st ls = Inr (st', ls')"
  | (rule) "line = ''begin_rule''" "parse_rule st ls = Inr (st', ls')"
  | (operator) "line = ''begin_operator''" "parse_operator flt st ls = Inr (st', ls')"
  | (goal) "line = ''begin_goal''" "parse_goal st ls = Inr (st', ls')"
  | (state) "line = ''begin_state''" "parse_state st ls = Inr (st', ls')"
  | (other) "line \<noteq> ''begin_variable''" "line \<noteq> ''begin_rule''" "line \<noteq> ''begin_operator''"
      "line \<noteq> ''begin_goal''" "line \<noteq> ''begin_state''" "st' = st" "ls' = ls"
  using assms unfolding parse_block_def
  by (auto split: if_splits)

lemma parse_rule_frame:
  assumes "parse_rule st ls = Inr (st', ls')"
  shows "variables st' = variables st" and "init st' = init st" and "model st' = model st"
    and "goal st' = goal st" and "operators st' = operators st"
    and "didp_variables st' = didp_variables st"
    and "detected_conditional_effects st' = detected_conditional_effects st"
    and "detected_axioms st'"
proof -
  from assms obtain pre var v where
    "st' = st\<lparr>detected_axioms := True,
                rules := rules st @ [\<lparr>rule_preconditions = pre, rule_var = var, rule_val = 0\<rparr>],
                axiom_heads :=
                  AList.update var
                    (get_or [] (axiom_heads st) var
                     @ [\<lparr>rule_preconditions = pre, rule_var = var, rule_val = 0\<rparr>])
                    (axiom_heads st),
                axiom_edges :=
                  AList.update var (List.union (map fst pre) (get_or [] (axiom_edges st) var))
                    (axiom_edges st)\<rparr>"
    by (rule parse_rule_result)
  then show "variables st' = variables st" and "init st' = init st" and "model st' = model st"
    and "goal st' = goal st" and "operators st' = operators st"
    and "didp_variables st' = didp_variables st"
    and "detected_conditional_effects st' = detected_conditional_effects st"
    and "detected_axioms st'"
    by simp_all
qed

lemma parse_operator_frame:
  assumes "parse_operator flt st ls = Inr (st', ls')"
  shows "variables st' = variables st" and "init st' = init st" and "model st' = model st"
    and "goal st' = goal st" and "rules st' = rules st"
    and "axiom_heads st' = axiom_heads st" and "axiom_edges st' = axiom_edges st"
    and "didp_variables st' = didp_variables st"
    and "detected_axioms st' = detected_axioms st"
    and "detected_conditional_effects st'
         = (detected_conditional_effects st \<or> guarded_operator ls)"
proof -
  from assms obtain op where
    "st' = st\<lparr>detected_conditional_effects :=
                  (detected_conditional_effects st \<or> guarded_operator ls),
                operators := operators st @ [op]\<rparr>"
    by (rule parse_operator_result)
  then show "variables st' = variables st" and "init st' = init st" and "model st' = model st"
    and "goal st' = goal st" and "rules st' = rules st"
    and "axiom_heads st' = axiom_heads st" and "axiom_edges st' = axiom_edges st"
    and "didp_variables st' = didp_variables st"
    and "detected_axioms st' = detected_axioms st"
    and "detected_conditional_effects st'
         = (detected_conditional_effects st \<or> guarded_operator ls)"
    by simp_all
qed

lemma parse_goal_frame:
  assumes "parse_goal st ls = Inr (st', ls')"
  shows "variables st' = variables st" and "init st' = init st" and "model st' = model st"
    and "operators st' = operators st" and "rules st' = rules st"
    and "axiom_heads st' = axiom_heads st" and "axiom_edges st' = axiom_edges st"
    and "didp_variables st' = didp_variables st"
    and "detected_axioms st' = detected_axioms st"
    and "detected_conditional_effects st' = detected_conditional_effects st"
proof -
  from assms obtain g where "st' = st\<lparr>goal := g\<rparr>"
    by (rule parse_goal_result)
  then show "variables st' = variables st" and "init st' = init st" and "model st' = model st"
    and "operators st' = operators st" and "rules st' = rules st"
    and "axiom_heads st' = axiom_heads st" and "axiom_edges st' = axiom_edges st"
    and "didp_variables st' = didp_variables st"
    and "detected_axioms st' = detected_axioms st"
    and "detected_conditional_effects st' = detected_conditional_effects st"
    by simp_all
qed

lemma parse_state_frame:
  assumes "parse_state st ls = Inr (st', ls')"
  shows "variables st' = variables st" and "goal st' = goal st" and "model st' = model st"
    and "operators st' = operators st" and "rules st' = rules st"
    and "axiom_heads st' = axiom_heads st" and "axiom_edges st' = axiom_edges st"
    and "didp_variables st' = didp_variables st"
    and "detected_axioms st' = detected_axioms st"
    and "detected_conditional_effects st' = detected_conditional_effects st"
proof -
  from assms obtain d where "st' = st\<lparr>init := d\<rparr>"
    by (rule parse_state_result)
  then show "variables st' = variables st" and "goal st' = goal st" and "model st' = model st"
    and "operators st' = operators st" and "rules st' = rules st"
    and "axiom_heads st' = axiom_heads st" and "axiom_edges st' = axiom_edges st"
    and "didp_variables st' = didp_variables st"
    and "detected_axioms st' = detected_axioms st"
    and "detected_conditional_effects st' = detected_conditional_effects st"
    by simp_all
qed

lemma parse_variable_frame:
  assumes "parse_variable st ls = Inr (st', ls')"
  shows "init st' = init st" and "goal st' = goal st" and "model st' = model st"
    and "operators st' = operators st" and "rules st' = rules st"
    and "axiom_heads st' = axiom_heads st" and "axiom_edges st' = axiom_edges st"
    and "didp_variables st' = didp_variables st"
    and "detected_axioms st' = detected_axioms st"
    and "detected_conditional_effects st' = detected_conditional_effects st"
proof -
  from assms obtain vals layer where
    "st' = st\<lparr>variables :=
                 AList.update (int (length (variables st)))
                   \<lparr>var_name = ''var'' @ str_nat (length (variables st)),
                    var_values = vals, var_axiom_layer = layer\<rparr> (variables st)\<rparr>"
    by (rule parse_variable_result)
  then show "init st' = init st" and "goal st' = goal st" and "model st' = model st"
    and "operators st' = operators st" and "rules st' = rules st"
    and "axiom_heads st' = axiom_heads st" and "axiom_edges st' = axiom_edges st"
    and "didp_variables st' = didp_variables st"
    and "detected_axioms st' = detected_axioms st"
    and "detected_conditional_effects st' = detected_conditional_effects st"
    by simp_all
qed

lemma parse_variable_name:
  "parse_variable st ls = Inr (st', ls')
   \<Longrightarrow> ls \<noteq> [] \<and> hd ls = ''var'' @ str_nat (length (variables st))"
  unfolding parse_variable_def
  by (auto simp: Let_def split: list.splits sum.splits if_splits)

lemma parse_loop_invariant:
  assumes "parse_loop flt st ls = Inr st'" and "I st"
    and step: "\<And>flt st line ls st1 ls1.
                 I st \<Longrightarrow> parse_block flt st line ls = Inr (st1, ls1) \<Longrightarrow> I st1"
  shows "I st'"
  using assms(1,2)
proof (induction flt st ls rule: parse_loop.induct)
  case (1 flt st)
  then show ?case by simp
next
  case (2 flt st line ls)
  from "2.prems"(1) obtain st1 ls1 where b: "parse_block flt st line ls = Inr (st1, ls1)"
    and l: "parse_loop flt st1 ls1 = Inr st'"
    by (auto split: sum.splits)
  from step [OF "2.prems"(2) b] have "I st1" .
  from "2.IH" [OF b refl l this] show ?case .
qed

lemma parse_rule_appends:
  assumes "parse_rule st ls = Inr (st', ls')"
  obtains r where "rules st' = rules st @ [r]"
proof -
  from parse_rule_result [OF assms] obtain pre var x where
    "st' = st\<lparr>detected_axioms := True,
                rules := rules st @ [\<lparr>rule_preconditions = pre, rule_var = var, rule_val = 0\<rparr>],
                axiom_heads :=
                  AList.update var
                    (get_or [] (axiom_heads st) var
                     @ [\<lparr>rule_preconditions = pre, rule_var = var, rule_val = 0\<rparr>])
                    (axiom_heads st),
                axiom_edges :=
                  AList.update var (List.union (map fst pre) (get_or [] (axiom_edges st) var))
                    (axiom_edges st)\<rparr>"
    by blast
  then have "rules st' = rules st @ [\<lparr>rule_preconditions = pre, rule_var = var, rule_val = 0\<rparr>]"
    by simp
  then show ?thesis by (rule that)
qed

section \<open>What the parser keeps true\<close>

lemma update_fresh: "k \<notin> fst ` set al \<Longrightarrow> AList.update k v al = al @ [(k, v)]"
  by (induction al) auto

lemma dense_ids_fresh: "dense_ids st \<Longrightarrow> int (length (variables st)) \<notin> fst ` set (variables st)"
proof -
  assume "dense_ids st"
  then have "fst ` set (variables st) = int ` {0..<length (variables st)}"
    unfolding dense_ids_def by (metis list.set_map set_upt)
  then show ?thesis by auto
qed

lemma parse_variable_appends:
  assumes "parse_variable st ls = Inr (st', ls')" and "dense_ids st"
  obtains v where "variables st' = variables st @ [(int (length (variables st)), v)]"
    and "var_name v = ''var'' @ str_nat (length (variables st))"
    and "var_name v = hd ls"
    and "st' = st\<lparr>variables := variables st'\<rparr>"
proof -
  from assms(1) obtain vals layer where
    st': "st' = st\<lparr>variables :=
                 AList.update (int (length (variables st)))
                   \<lparr>var_name = ''var'' @ str_nat (length (variables st)),
                    var_values = vals, var_axiom_layer = layer\<rparr> (variables st)\<rparr>"
    by (rule parse_variable_result)
  let ?v = "\<lparr>var_name = ''var'' @ str_nat (length (variables st)),
                    var_values = vals, var_axiom_layer = layer\<rparr>"
  have "variables st' = variables st @ [(int (length (variables st)), ?v)]"
    using st' update_fresh [OF dense_ids_fresh [OF assms(2)]] by simp
  moreover have "var_name ?v = hd ls"
    using parse_variable_name [OF assms(1)] by simp
  moreover have "st' = st\<lparr>variables := variables st'\<rparr>"
    using st' by simp
  ultimately show ?thesis
    by (intro that [of ?v]) simp_all
qed

lemma dense_ids_block:
  assumes "dense_ids st" and "parse_block flt st line ls = Inr (st', ls')"
  shows "dense_ids st'"
  using assms(2)
proof (cases rule: parse_block_cases)
  case variable
  from parse_variable_appends [OF variable(2) assms(1)] obtain v where
    v: "variables st' = variables st @ [(int (length (variables st)), v)]"
      "var_name v = ''var'' @ str_nat (length (variables st))"
    by blast
  with assms(1) show ?thesis
    by (simp add: dense_ids_def)
next
  case rule
  from parse_rule_frame(1) [OF rule(2)] assms(1) show ?thesis
    by (simp add: dense_ids_def)
next
  case operator
  from parse_operator_frame(1) [OF operator(2)] assms(1) show ?thesis
    by (simp add: dense_ids_def)
next
  case goal
  from parse_goal_frame(1) [OF goal(2)] assms(1) show ?thesis
    by (simp add: dense_ids_def)
next
  case state
  from parse_state_frame(1) [OF state(2)] assms(1) show ?thesis
    by (simp add: dense_ids_def)
next
  case other
  with assms(1) show ?thesis by simp
qed

lemma dense_ids_new: "dense_ids new_transformer"
  by (simp add: dense_ids_def new_transformer_def)

lemma parse_dense_ids: "parse flt sas_lines = Inr st \<Longrightarrow> dense_ids st"
  unfolding parse_def
  by (erule parse_loop_invariant [where I = dense_ids]) (auto intro: dense_ids_new dense_ids_block)

lemma declared_names:
  assumes "parse_loop flt st ls = Inr st'" and "dense_ids st"
  shows "map (\<lambda>(i, v). var_name v) (variables st')
         = map (\<lambda>(i, v). var_name v) (variables st)
           @ map (\<lambda>r. hd (snd (snd r))) (filter (opens ''begin_variable'') (rounds flt st ls))"
  using assms
proof (induction flt st ls rule: parse_loop.induct)
  case (1 flt st)
  then show ?case by simp
next
  case (2 flt st line ls)
  from "2.prems"(1) obtain st1 ls1 where b: "parse_block flt st line ls = Inr (st1, ls1)"
    and l: "parse_loop flt st1 ls1 = Inr st'"
    by (auto split: sum.splits)
  have d1: "dense_ids st1"
    using dense_ids_block [OF "2.prems"(2) b] .
  note IH = "2.IH" [OF b refl l d1]
  from b show ?case
  proof (cases rule: parse_block_cases)
    case variable
    from parse_variable_appends [OF variable(2) "2.prems"(2)] obtain v where
      v: "variables st1 = variables st @ [(int (length (variables st)), v)]"
        "var_name v = hd ls"
      by blast
    with IH b variable(1) show ?thesis
      by (simp add: opens_def)
  next
    case rule
    from parse_rule_frame(1) [OF rule(2)] have "variables st1 = variables st" .
    with IH b rule(1) show ?thesis
      by (simp add: opens_def)
  next
    case operator
    from parse_operator_frame(1) [OF operator(2)] have "variables st1 = variables st" .
    with IH b operator(1) show ?thesis
      by (simp add: opens_def)
  next
    case goal
    from parse_goal_frame(1) [OF goal(2)] have "variables st1 = variables st" .
    with IH b goal(1) show ?thesis
      by (simp add: opens_def)
  next
    case state
    from parse_state_frame(1) [OF state(2)] have "variables st1 = variables st" .
    with IH b state(1) show ?thesis
      by (simp add: opens_def)
  next
    case other
    with IH b show ?thesis
      by (simp add: opens_def)
  qed
qed

lemma valid_rule_variables:
  assumes "valid_rule st r" and "variables st' = variables st @ [(k, v)]"
  shows "valid_rule st' r"
  using assms
  by (auto simp: valid_rule_def split: option.splits)

lemma valid_rule_same:
  "valid_rule st r \<Longrightarrow> variables st' = variables st \<Longrightarrow> valid_rule st' r"
  by (simp add: valid_rule_def)

lemma rules_valid_block:
  assumes "dense_ids st \<and> list_all (valid_rule st) (rules st)"
    and b: "parse_block flt st line ls = Inr (st', ls')"
  shows "dense_ids st' \<and> list_all (valid_rule st') (rules st')"
proof
  from assms show "dense_ids st'"
    by (blast intro: dense_ids_block)
  from assms have d: "dense_ids st" and v: "list_all (valid_rule st) (rules st)"
    by simp_all
  from b show "list_all (valid_rule st') (rules st')"
  proof (cases rule: parse_block_cases)
    case variable
    from parse_variable_appends [OF variable(2) d] obtain x where
      "variables st' = variables st @ [(int (length (variables st)), x)]"
      by blast
    moreover have "rules st' = rules st"
      using parse_variable_frame(5) [OF variable(2)] .
    ultimately show ?thesis
      using v by (auto simp: list_all_iff intro: valid_rule_variables)
  next
    case rule
    from parse_rule_result [OF rule(2)] obtain pre var x where
      st': "st' = st\<lparr>detected_axioms := True,
                rules := rules st @ [\<lparr>rule_preconditions = pre, rule_var = var, rule_val = 0\<rparr>],
                axiom_heads :=
                  AList.update var
                    (get_or [] (axiom_heads st) var
                     @ [\<lparr>rule_preconditions = pre, rule_var = var, rule_val = 0\<rparr>])
                    (axiom_heads st),
                axiom_edges :=
                  AList.update var (List.union (map fst pre) (get_or [] (axiom_edges st) var))
                    (axiom_edges st)\<rparr>"
      and x: "map_of (variables st) var = Some x" "boolean_domain x"
      by blast
    have "valid_rule st' \<lparr>rule_preconditions = pre, rule_var = var, rule_val = 0\<rparr>"
      using x st' by (simp add: valid_rule_def)
    moreover have "list_all (valid_rule st') (rules st)"
      using v st' by (auto simp: list_all_iff valid_rule_def)
    ultimately show ?thesis
      using st' by simp
  next
    case operator
    from parse_operator_frame(1,5) [OF operator(2)] v show ?thesis
      by (auto simp: list_all_iff intro: valid_rule_same)
  next
    case goal
    from parse_goal_frame(1,5) [OF goal(2)] v show ?thesis
      by (auto simp: list_all_iff intro: valid_rule_same)
  next
    case state
    from parse_state_frame(1,5) [OF state(2)] v show ?thesis
      by (auto simp: list_all_iff intro: valid_rule_same)
  next
    case other
    with v show ?thesis by simp
  qed
qed

lemma rules_count:
  assumes "parse_loop flt st ls = Inr st'"
  shows "length (rules st')
         = length (rules st) + length (filter (opens ''begin_rule'') (rounds flt st ls))"
  using assms
proof (induction flt st ls rule: parse_loop.induct)
  case (1 flt st)
  then show ?case by simp
next
  case (2 flt st line ls)
  from "2.prems"(1) obtain st1 ls1 where b: "parse_block flt st line ls = Inr (st1, ls1)"
    and l: "parse_loop flt st1 ls1 = Inr st'"
    by (auto split: sum.splits)
  note IH = "2.IH" [OF b refl l]
  from b show ?case
  proof (cases rule: parse_block_cases)
    case variable
    from parse_variable_frame(5) [OF variable(2)] IH b variable(1) show ?thesis
      by (simp add: opens_def)
  next
    case rule
    from parse_rule_appends [OF rule(2)] obtain r where "rules st1 = rules st @ [r]"
      by blast
    with IH b rule(1) show ?thesis
      by (simp add: opens_def)
  next
    case operator
    from parse_operator_frame(5) [OF operator(2)] IH b operator(1) show ?thesis
      by (simp add: opens_def)
  next
    case goal
    from parse_goal_frame(5) [OF goal(2)] IH b goal(1) show ?thesis
      by (simp add: opens_def)
  next
    case state
    from parse_state_frame(5) [OF state(2)] IH b state(1) show ?thesis
      by (simp add: opens_def)
  next
    case other
    with IH b show ?thesis
      by (simp add: opens_def)
  qed
qed

lemma rounds_true_heads:
  assumes "parse_loop flt st ls = Inr st'"
  shows "list_all true_head (filter (opens ''begin_rule'') (rounds flt st ls))
         \<and> map stored_head (rules st')
           = map stored_head (rules st)
             @ map read_head (filter (opens ''begin_rule'') (rounds flt st ls))"
  using assms
proof (induction flt st ls rule: parse_loop.induct)
  case (1 flt st)
  then show ?case by simp
next
  case (2 flt st line ls)
  from "2.prems"(1) obtain st1 ls1 where b: "parse_block flt st line ls = Inr (st1, ls1)"
    and l: "parse_loop flt st1 ls1 = Inr st'"
    by (auto split: sum.splits)
  note IH = "2.IH" [OF b refl l]
  from b show ?case
  proof (cases rule: parse_block_cases)
    case variable
    from parse_variable_frame(5) [OF variable(2)] IH b variable(1) show ?thesis
      by (simp add: opens_def)
  next
    case rule
    from rule(2) obtain pre var v where h: "rule_head st ls = Some (var, 0, v)"
      and d: "boolean_domain v"
      and r: "rules st1 = rules st @ [\<lparr>rule_preconditions = pre, rule_var = var, rule_val = 0\<rparr>]"
      by (rule parse_rule_head)
    from h d have "true_head (st, line, ls)"
      by (simp add: true_head_def)
    moreover from h have "read_head (st, line, ls) = Some (var, 0)"
      by (simp add: read_head_def)
    ultimately show ?thesis
      using IH b rule(1) r by (simp add: opens_def stored_head_def)
  next
    case operator
    from parse_operator_frame(5) [OF operator(2)] IH b operator(1) show ?thesis
      by (simp add: opens_def)
  next
    case goal
    from parse_goal_frame(5) [OF goal(2)] IH b goal(1) show ?thesis
      by (simp add: opens_def)
  next
    case state
    from parse_state_frame(5) [OF state(2)] IH b state(1) show ?thesis
      by (simp add: opens_def)
  next
    case other
    with IH b show ?thesis
      by (simp add: opens_def)
  qed
qed

lemma refused_round_raises:
  assumes "list_ex refused_round (rounds flt st ls)"
  shows "parse_loop flt st ls = Inl AssertionError"
  using assms
proof (induction flt st ls rule: parse_loop.induct)
  case (1 flt st)
  then show ?case by simp
next
  case (2 flt st line ls)
  show ?case
  proof (cases "refused_round (st, line, ls)")
    case True
    then have l: "line = ''begin_rule''"
      by (simp add: refused_round_def opens_def)
    from True have "refused_head (st, line, ls)"
      by (simp add: refused_round_def)
    then obtain var new v where "rule_head st ls = Some (var, new, v)"
      and "new \<noteq> 0 \<or> \<not> boolean_domain v"
      by (auto simp: refused_head_def split: option.splits)
    then have "parse_rule st ls = Inl AssertionError"
      by (rule parse_rule_raises)
    with l show ?thesis
      by (simp add: parse_block_def)
  next
    case False
    with "2.prems" obtain st1 ls1 where b: "parse_block flt st line ls = Inr (st1, ls1)"
      and r: "list_ex refused_round (rounds flt st1 ls1)"
      by (auto split: sum.splits)
    from "2.IH" [OF b refl r] b show ?thesis
      by simp
  qed
qed

lemma flags_after_loop:
  assumes "parse_loop flt st ls = Inr st'"
  shows "detected_axioms st'
           = (detected_axioms st \<or> list_ex (opens ''begin_rule'') (rounds flt st ls))
         \<and> detected_conditional_effects st'
           = (detected_conditional_effects st \<or> list_ex guarded_round (rounds flt st ls))"
  using assms
proof (induction flt st ls rule: parse_loop.induct)
  case (1 flt st)
  then show ?case by simp
next
  case (2 flt st line ls)
  from "2.prems"(1) obtain st1 ls1 where b: "parse_block flt st line ls = Inr (st1, ls1)"
    and l: "parse_loop flt st1 ls1 = Inr st'"
    by (auto split: sum.splits)
  note IH = "2.IH" [OF b refl l]
  from b show ?case
  proof (cases rule: parse_block_cases)
    case variable
    from parse_variable_frame(9,10) [OF variable(2)] IH b variable(1) show ?thesis
      by (simp add: opens_def guarded_round_def)
  next
    case rule
    from parse_rule_frame(7,8) [OF rule(2)] IH b rule(1) show ?thesis
      by (simp add: opens_def guarded_round_def)
  next
    case operator
    from parse_operator_frame(9,10) [OF operator(2)] IH b operator(1) show ?thesis
      by (auto simp: opens_def guarded_round_def)
  next
    case goal
    from parse_goal_frame(9,10) [OF goal(2)] IH b goal(1) show ?thesis
      by (simp add: opens_def guarded_round_def)
  next
    case state
    from parse_state_frame(9,10) [OF state(2)] IH b state(1) show ?thesis
      by (simp add: opens_def guarded_round_def)
  next
    case other
    with IH b show ?thesis
      by (simp add: opens_def guarded_round_def)
  qed
qed

lemma untouched_block:
  assumes "untouched st" and b: "parse_block flt st line ls = Inr (st', ls')"
  shows "untouched st'"
  using b
proof (cases rule: parse_block_cases)
  case variable
  from parse_variable_frame(3,6,8,9) [OF variable(2)] assms(1) show ?thesis
    by (simp add: untouched_def)
next
  case rule
  from parse_rule_frame(3,6,8) [OF rule(2)] assms(1) show ?thesis
    by (simp add: untouched_def)
next
  case operator
  from parse_operator_frame(3,6,8,9) [OF operator(2)] assms(1) show ?thesis
    by (simp add: untouched_def)
next
  case goal
  from parse_goal_frame(3,6,8,9) [OF goal(2)] assms(1) show ?thesis
    by (simp add: untouched_def)
next
  case state
  from parse_state_frame(3,6,8,9) [OF state(2)] assms(1) show ?thesis
    by (simp add: untouched_def)
next
  case other
  with assms(1) show ?thesis by simp
qed

lemma parse_untouched:
  assumes "parse flt sas_lines = Inr st"
  shows "untouched st"
proof -
  have "untouched new_transformer"
    by (simp add: untouched_def new_transformer_def)
  with assms [unfolded parse_def] show ?thesis
    by (rule parse_loop_invariant [where I = untouched]) (rule untouched_block)
qed

lemma init_unchanged:
  assumes "parse_loop flt st ls = Inr st'" and "\<not> list_ex state_round (rounds flt st ls)"
  shows "init st' = init st"
  using assms
proof (induction flt st ls rule: parse_loop.induct)
  case (1 flt st)
  then show ?case by simp
next
  case (2 flt st line ls)
  from "2.prems"(1) obtain st1 ls1 where b: "parse_block flt st line ls = Inr (st1, ls1)"
    and l: "parse_loop flt st1 ls1 = Inr st'"
    by (auto split: sum.splits)
  from "2.prems"(2) b have here: "\<not> state_round (st, line, ls)"
    and rest: "\<not> list_ex state_round (rounds flt st1 ls1)"
    by simp_all
  note IH = "2.IH" [OF b refl l rest]
  from b show ?case
  proof (cases rule: parse_block_cases)
    case variable
    from parse_variable_frame(1) [OF variable(2)] IH show ?thesis by simp
  next
    case rule
    from parse_rule_frame(2) [OF rule(2)] IH show ?thesis by simp
  next
    case operator
    from parse_operator_frame(2) [OF operator(2)] IH show ?thesis by simp
  next
    case goal
    from parse_goal_frame(2) [OF goal(2)] IH show ?thesis by simp
  next
    case state
    with here have "variables st = []"
      by (simp add: state_round_def opens_def)
    from parse_state_no_variables [OF state(2) this] IH show ?thesis by simp
  next
    case other
    with IH show ?thesis by simp
  qed
qed

lemma get_or_update: "get_or d (AList.update k v al) h = (if h = k then v else get_or d al h)"
  by (simp add: get_or_def update_conv')

lemma edges_of_rules_rule:
  assumes "edges_of_rules st" and "parse_rule st ls = Inr (st', ls')"
  shows "edges_of_rules st'"
proof -
  from parse_rule_result [OF assms(2)] obtain pre var x where
    st': "st' = st\<lparr>detected_axioms := True,
                rules := rules st @ [\<lparr>rule_preconditions = pre, rule_var = var, rule_val = 0\<rparr>],
                axiom_heads :=
                  AList.update var
                    (get_or [] (axiom_heads st) var
                     @ [\<lparr>rule_preconditions = pre, rule_var = var, rule_val = 0\<rparr>])
                    (axiom_heads st),
                axiom_edges :=
                  AList.update var (List.union (map fst pre) (get_or [] (axiom_edges st) var))
                    (axiom_edges st)\<rparr>"
    by blast
  from assms(1) have d: "distinct (map fst (axiom_edges st))"
    and k: "map fst (axiom_heads st) = map fst (axiom_edges st)"
    and h: "fst ` set (axiom_edges st) = rule_var ` set (rules st)"
    and b: "\<And>h. set (get_or [] (axiom_edges st) h) = body_vars st h"
    by (simp_all add: edges_of_rules_def)
  have r: "rules st' = rules st @ [\<lparr>rule_preconditions = pre, rule_var = var, rule_val = 0\<rparr>]"
    and e: "axiom_edges st'
            = AList.update var (List.union (map fst pre) (get_or [] (axiom_edges st) var))
                (axiom_edges st)"
    and a: "axiom_heads st'
            = AList.update var
                (get_or [] (axiom_heads st) var
                 @ [\<lparr>rule_preconditions = pre, rule_var = var, rule_val = 0\<rparr>])
                (axiom_heads st)"
    by (simp_all add: st')
  have 1: "distinct (map fst (axiom_edges st'))"
    unfolding e using d by (rule distinct_update)
  have 2: "map fst (axiom_heads st') = map fst (axiom_edges st')"
    unfolding e a using k by (simp add: update_keys)
  have 3: "fst ` set (axiom_edges st') = rule_var ` set (rules st')"
    unfolding e r using h by (simp add: dom_update)
  have v: "body_vars st' h = body_vars st h \<union> (if h = var then fst ` set pre else {})" for h
  proof -
    define new_rule where "new_rule = \<lparr>rule_preconditions = pre, rule_var = var, rule_val = 0\<rparr>"
    have n: "rule_var new_rule = var" "rule_preconditions new_rule = pre"
      by (simp_all add: new_rule_def)
    have "{x \<in> set (rules st'). rule_var x = h}
          = {x \<in> set (rules st). rule_var x = h} \<union> (if h = var then {new_rule} else {})"
      unfolding r new_rule_def [symmetric] using n by auto
    then show ?thesis
      unfolding body_vars_def using n by (simp add: UN_Un)
  qed
  have 4: "set (get_or [] (axiom_edges st') h) = body_vars st' h" for h
    unfolding e using b [of h] by (auto simp: get_or_update v)
  from 1 2 3 4 show ?thesis
    by (simp add: edges_of_rules_def)
qed

lemma edges_of_rules_same:
  assumes "edges_of_rules st" and "rules st' = rules st"
    and "axiom_heads st' = axiom_heads st" and "axiom_edges st' = axiom_edges st"
  shows "edges_of_rules st'"
  using assms by (simp add: edges_of_rules_def body_vars_def)

lemma edges_of_rules_block:
  assumes "edges_of_rules st" and b: "parse_block flt st line ls = Inr (st', ls')"
  shows "edges_of_rules st'"
  using b
proof (cases rule: parse_block_cases)
  case variable
  from assms(1) parse_variable_frame(5,6,7) [OF variable(2)] show ?thesis
    by (rule edges_of_rules_same)
next
  case rule
  from assms(1) rule(2) show ?thesis
    by (rule edges_of_rules_rule)
next
  case operator
  from assms(1) parse_operator_frame(5,6,7) [OF operator(2)] show ?thesis
    by (rule edges_of_rules_same)
next
  case goal
  from assms(1) parse_goal_frame(5,6,7) [OF goal(2)] show ?thesis
    by (rule edges_of_rules_same)
next
  case state
  from assms(1) parse_state_frame(5,6,7) [OF state(2)] show ?thesis
    by (rule edges_of_rules_same)
next
  case other
  with assms(1) show ?thesis by simp
qed

lemma parse_edges_of_rules:
  assumes "parse flt sas_lines = Inr st"
  shows "edges_of_rules st"
proof -
  have "edges_of_rules new_transformer"
    by (simp add: edges_of_rules_def new_transformer_def body_vars_def get_or_def)
  with assms [unfolded parse_def] show ?thesis
    by (rule parse_loop_invariant [where I = edges_of_rules]) (rule edges_of_rules_block)
qed

section \<open>The value iteration\<close>

lemma cycle_round:
  "0 \<le> k \<Longrightarrow> relax_round cycle_edges [(1, k), (2, k)] [(1, k), (2, k)] = [(1, k + 1), (2, k + 1)]"
  by (simp add: relax_round_def layer_update_def cycle_edges_def)

lemma cycle_state_step:
  assumes "cycle_state e c n"
  shows "is_diff c n" and "cycle_state e (map (\<lambda>(i, v). (i, Some v)) n) (relax_round e n n)"
proof -
  from assms obtain k where k: "0 \<le> k" "n = [(1, k), (2, k)]" and e: "e = cycle_edges"
    and diff: "is_diff c n"
    by (auto simp: cycle_state_def is_diff_def)
  show "is_diff c n" by (rule diff)
  have "relax_round e n n = [(1, k + 1), (2, k + 1)]"
    using e k cycle_round by simp
  moreover have "map (\<lambda>(i, v). (i, Some v)) n = [(1, Some k), (2, Some k)]"
    using k by simp
  ultimately show "cycle_state e (map (\<lambda>(i, v). (i, Some v)) n) (relax_round e n n)"
    using e k by (simp add: cycle_state_def)
qed

lemma cycle_never_returns:
  assumes r: "relax e c n = Some y"
  shows "\<not> cycle_state e c n"
proof (rule relax.raw_induct [where P = "\<lambda>e c n y. \<not> cycle_state e c n", OF _ r])
  fix relax' :: "(int \<times> int list) list \<Rightarrow> (int \<times> int option) list \<Rightarrow> (int \<times> int) list
      \<Rightarrow> (int \<times> int) list option"
    and e c n y
  assume IH: "\<And>e c n y. relax' e c n = Some y \<Longrightarrow> \<not> cycle_state e c n"
    and body: "(if is_diff c n
                then relax' e (map (\<lambda>(i, v). (i, Some v)) n) (relax_round e n n)
                else Some n) = Some y"
  show "\<not> cycle_state e c n"
  proof
    assume inv: "cycle_state e c n"
    from body cycle_state_step(1) [OF inv]
    have "relax' e (map (\<lambda>(i, v). (i, Some v)) n) (relax_round e n n) = Some y"
      by simp
    from IH [OF this] cycle_state_step(2) [OF inv] show False by simp
  qed
qed

lemma stratify_cycle: "stratify cycle_edges = None"
proof (cases "stratify cycle_edges")
  case None
  then show ?thesis .
next
  case (Some y)
  then have "relax cycle_edges [(1, None), (2, None)] [(1, 0), (2, 0)] = Some y"
    by (simp add: stratify_def cycle_edges_def)
  from cycle_never_returns [OF this] show ?thesis by (simp add: cycle_state_def)
qed

lemma layer_update_cong: "map_of c1 = map_of c2 \<Longrightarrow> layer_update c1 b = layer_update c2 b"
  by (simp add: layer_update_def)

lemma map_of_round:
  "distinct (map fst es)
   \<Longrightarrow> map_of (fold (\<lambda>(h, b) nv. AList.update h (f b) nv) es nv) k
       = (case map_of es k of None \<Rightarrow> map_of nv k | Some b \<Rightarrow> Some (f b))"
proof (induction es arbitrary: nv)
  case Nil
  then show ?case by simp
next
  case (Cons p es)
  obtain h b where p: "p = (h, b)" by (cases p) auto
  from Cons.prems have d: "distinct (map fst es)" and h: "h \<notin> fst ` set es"
    by (simp_all add: p)
  from h have n: "map_of es h = None"
    by (simp add: map_of_eq_None_iff)
  show ?case
    using Cons.IH [OF d, of "AList.update h (f b) nv"] n
    by (simp add: p update_conv' split: option.splits)
qed

lemma keys_round:
  "set (map fst es) \<subseteq> set (map fst nv)
   \<Longrightarrow> map fst (fold (\<lambda>(h, b) nv. AList.update h (f b) nv) es nv) = map fst nv"
proof (induction es arbitrary: nv)
  case Nil
  then show ?case by simp
next
  case (Cons p es)
  obtain h b where p: "p = (h, b)" by (cases p) auto
  from Cons.prems have k: "map fst (AList.update h (f b) nv) = map fst nv"
    by (simp add: p update_keys)
  with Cons.prems have "set (map fst es) \<subseteq> set (map fst (AList.update h (f b) nv))"
    by simp
  from Cons.IH [OF this] k show ?case
    by (simp add: p)
qed

lemma keys_relax_round: "map fst n = map fst e \<Longrightarrow> map fst (relax_round e c n) = map fst e"
  unfolding relax_round_def by (simp add: keys_round)

lemma map_of_relax_round:
  "distinct (map fst e) \<Longrightarrow> (h, body) \<in> set e
   \<Longrightarrow> map_of (relax_round e c n) h = Some (layer_update c body)"
  unfolding relax_round_def by (simp add: map_of_round)

lemma no_diff_same:
  assumes "\<not> is_diff (map (\<lambda>(i, v). (i, Some v)) prev) n"
    and "distinct (map fst prev)" and "map fst n = map fst prev"
  shows "map_of n = map_of prev"
proof
  fix k
  show "map_of n k = map_of prev k"
  proof (cases "map_of prev k")
    case None
    then have "k \<notin> fst ` set prev" by (simp add: map_of_eq_None_iff)
    then have "k \<notin> fst ` set n" using assms(3) by (metis list.set_map)
    then have "map_of n k = None" by (simp add: map_of_eq_None_iff)
    with None show ?thesis by simp
  next
    case (Some c)
    then have "(k, c) \<in> set prev" by (rule map_of_SomeD)
    with assms(1) have "map_of n k = Some c"
      by (auto simp: is_diff_def list_ex_iff)
    with Some show ?thesis by simp
  qed
qed

lemma start_no_diff:
  assumes "\<not> is_diff (map (\<lambda>(i, b). (i, None)) e) (map (\<lambda>(i, b). (i, 0)) e)"
  shows "e = []"
proof (cases e)
  case Nil
  then show ?thesis .
next
  case (Cons p es)
  obtain h b where p: "p = (h, b)" by (cases p) auto
  from assms show ?thesis
    by (simp add: is_diff_def Cons p)
qed

lemma relax_state_exit:
  assumes "relax_state e c n" and "\<not> is_diff c n"
  shows "fixed_point e n"
proof -
  from assms(1) have d: "distinct (map fst e)" and k: "map fst n = map fst e"
    by (simp_all add: relax_state_def)
  from assms(1) consider
    (start) "c = map (\<lambda>(i, b). (i, None)) e" "n = map (\<lambda>(i, b). (i, 0)) e"
    | (later) prev where "map fst prev = map fst e" "c = map (\<lambda>(i, v). (i, Some v)) prev"
        "n = relax_round e prev prev"
    by (auto simp: relax_state_def)
  then show ?thesis
  proof cases
    case start
    with assms(2) have "e = []" by (simp add: start_no_diff)
    with start show ?thesis by (simp add: fixed_point_def)
  next
    case later
    have same: "map_of n = map_of prev"
      using assms(2) later(1,2) d k by (intro no_diff_same) simp_all
    have "map_of n h = Some (layer_update n body)" if "(h, body) \<in> set e" for h body
      using map_of_relax_round [OF d that, of prev prev] later(3) layer_update_cong [OF same]
      by simp
    with k show ?thesis
      by (auto simp: fixed_point_def list_all_iff)
  qed
qed

lemma relax_state_step:
  assumes "relax_state e c n"
  shows "relax_state e (map (\<lambda>(i, v). (i, Some v)) n) (relax_round e n n)"
proof -
  from assms have d: "distinct (map fst e)" and k: "map fst n = map fst e"
    by (simp_all add: relax_state_def)
  from k have "map fst (relax_round e n n) = map fst e"
    by (rule keys_relax_round)
  with d k show ?thesis
    unfolding relax_state_def by blast
qed

lemma relax_fixed_point:
  assumes r: "relax e c n = Some V"
  shows "relax_state e c n \<longrightarrow> fixed_point e V"
proof (rule relax.raw_induct [where P = "\<lambda>e c n V. relax_state e c n \<longrightarrow> fixed_point e V", OF _ r])
  fix relax' :: "(int \<times> int list) list \<Rightarrow> (int \<times> int option) list \<Rightarrow> (int \<times> int) list
      \<Rightarrow> (int \<times> int) list option"
    and e c n V
  assume IH: "\<And>e c n V. relax' e c n = Some V \<Longrightarrow> relax_state e c n \<longrightarrow> fixed_point e V"
    and body: "(if is_diff c n
                then relax' e (map (\<lambda>(i, v). (i, Some v)) n) (relax_round e n n)
                else Some n) = Some V"
  show "relax_state e c n \<longrightarrow> fixed_point e V"
  proof
    assume s: "relax_state e c n"
    show "fixed_point e V"
    proof (cases "is_diff c n")
      case True
      with body have "relax' e (map (\<lambda>(i, v). (i, Some v)) n) (relax_round e n n) = Some V"
        by simp
      from IH [OF this] relax_state_step [OF s] show ?thesis by simp
    next
      case False
      with body have "V = n" by simp
      with relax_state_exit [OF s False] show ?thesis by simp
    qed
  qed
qed

lemma stratify_fixed_point:
  assumes "stratify e = Some V" and "distinct (map fst e)"
  shows "fixed_point e V"
proof -
  have "relax_state e (map (\<lambda>(i, b). (i, None)) e) (map (\<lambda>(i, b). (i, 0)) e)"
    using assms(2) by (simp add: relax_state_def comp_def case_prod_beta)
  with relax_fixed_point [OF assms(1) [unfolded stratify_def]] show ?thesis
    by simp
qed

lemma finite_body_layers: "finite (body_layers V body)"
proof -
  have "body_layers V body \<subseteq> (\<lambda>i. the (map_of V i)) ` set body"
    by (force simp: body_layers_def)
  then show ?thesis
    by (rule finite_subset) simp
qed

lemma fold_layers:
  "fold (\<lambda>i update. case map_of V i of None \<Rightarrow> update | Some c \<Rightarrow> max update (c + 1)) body u
     = Max (insert u ((\<lambda>a. a + 1) ` body_layers V body))"
proof (induction body arbitrary: u)
  case Nil
  then show ?case by (simp add: body_layers_def)
next
  case (Cons i body)
  have fin: "finite ((\<lambda>a. a + 1) ` body_layers V body)"
    by (simp add: finite_body_layers)
  show ?case
  proof (cases "map_of V i")
    case None
    then have "body_layers V (i # body) = body_layers V body"
      by (auto simp: body_layers_def)
    with None Cons.IH [of u] show ?thesis by simp
  next
    case (Some c)
    then have "body_layers V (i # body) = insert c (body_layers V body)"
      by (auto simp: body_layers_def)
    moreover have "Max (insert (max u (c + 1)) ((\<lambda>a. a + 1) ` body_layers V body))
                   = Max (insert u (insert (c + 1) ((\<lambda>a. a + 1) ` body_layers V body)))"
      using fin by (cases "body_layers V body = {}") (simp_all add: max.assoc)
    ultimately show ?thesis
      using Some Cons.IH [of "max u (c + 1)"] by simp
  qed
qed

lemma layer_update_max: "layer_update V body = 1 + Max (insert 0 (body_layers V body))"
proof -
  have "layer_update V body = Max (insert 1 ((\<lambda>a. a + 1) ` body_layers V body))"
    by (simp add: layer_update_def fold_layers)
  also have "\<dots> = Max ((\<lambda>a. a + 1) ` insert 0 (body_layers V body))"
    by simp
  also have "\<dots> = Max (insert 0 (body_layers V body)) + 1"
    by (rule mono_Max_commute [symmetric]) (auto simp: mono_def finite_body_layers)
  finally show ?thesis by simp
qed

lemma layer_update_above:
  assumes "i \<in> set body" and "map_of V i = Some a"
  shows "a < layer_update V body"
proof -
  from assms have "a \<in> insert 0 (body_layers V body)"
    by (auto simp: body_layers_def)
  then have "a \<le> Max (insert 0 (body_layers V body))"
    by (intro Max_ge) (simp_all add: finite_body_layers)
  then show ?thesis
    by (simp add: layer_update_max)
qed

lemma fixed_point_head:
  assumes "fixed_point e V" and "distinct (map fst e)" and "h \<in> fst ` set e"
  shows "map_of V h = Some (layer_update V (get_or [] e h))"
proof -
  from assms(3) obtain body where m: "(h, body) \<in> set e" by auto
  with assms(2) have "map_of e h = Some body" by simp
  then have "get_or [] e h = body" by (simp add: get_or_def)
  with assms(1) m show ?thesis
    by (auto simp: fixed_point_def list_all_iff)
qed

lemma ranked_edge:
  "ranked e r \<Longrightarrow> (h, body) \<in> set e \<Longrightarrow> i \<in> set body \<Longrightarrow> i \<in> fst ` set e \<Longrightarrow> r i < r h"
  unfolding ranked_def by fast

lemma map_of_key: "k \<in> fst ` set V \<Longrightarrow> map_of V k = Some (get_or 0 V k)"
  by (cases "map_of V k") (auto simp: get_or_def map_of_eq_None_iff)

lemma same_keys: "map fst V = map fst e \<Longrightarrow> fst ` set V = fst ` set e"
  by (metis list.set_map)

lemma round_value:
  assumes "distinct (map fst e)" and "(h, body) \<in> set e"
  shows "get_or 0 (relax_round e c n) h = layer_update c body"
  using map_of_relax_round [OF assms, of c n] by (simp add: get_or_def)

lemma zero_keys: "map fst (map (\<lambda>(i, b). (i, 0 :: int)) e) = map fst e"
  by (induction e) auto

lemma layers_after_Suc: "layers_after e (Suc k) = relax_round e (layers_after e k) (layers_after e k)"
  by (simp add: layers_after_def)

lemma layers_after_keys: "map fst (layers_after e k) = map fst e"
proof (induction k)
  case 0
  have "layers_after e 0 = map (\<lambda>(i, b). (i, 0)) e"
    by (simp add: layers_after_def)
  then show ?case by (simp only: zero_keys)
next
  case (Suc k)
  then show ?case by (simp add: layers_after_Suc keys_relax_round)
qed

lemma layers_after_value:
  assumes "distinct (map fst e)" and "(h, body) \<in> set e"
  shows "get_or 0 (layers_after e (Suc k)) h = layer_update (layers_after e k) body"
  unfolding layers_after_Suc using assms by (rule round_value)

lemma layer_update_agree:
  assumes "\<And>i. i \<in> set body \<Longrightarrow> map_of V i = map_of W i"
  shows "layer_update V body = layer_update W body"
  unfolding layer_update_def
  by (rule fold_cong) (simp_all add: assms)

lemma same_keys_lookup:
  assumes "map fst A = map fst B" and "i \<in> fst ` set A \<Longrightarrow> get_or 0 A i = get_or (0 :: int) B i"
  shows "map_of A i = map_of B i"
proof (cases "i \<in> fst ` set A")
  case True
  then have "i \<in> fst ` set B" using same_keys [OF assms(1)] by simp
  with True assms(2) show ?thesis by (simp add: map_of_key)
next
  case False
  then have "i \<notin> fst ` set B" using same_keys [OF assms(1)] by simp
  then have "map_of B i = None" by (simp add: map_of_eq_None_iff)
  moreover from False have "map_of A i = None" by (simp add: map_of_eq_None_iff)
  ultimately show ?thesis by simp
qed

lemma changed_body:
  assumes d: "distinct (map fst e)" and m: "(h, body) \<in> set e" and c: "changed e (Suc k) h"
  shows "\<exists>i \<in> set body. i \<in> fst ` set e \<and> changed e k i"
proof (rule ccontr)
  assume n: "\<not> (\<exists>i \<in> set body. i \<in> fst ` set e \<and> changed e k i)"
  have "map_of (layers_after e (Suc k)) i = map_of (layers_after e k) i" if "i \<in> set body" for i
  proof (rule same_keys_lookup)
    show "map fst (layers_after e (Suc k)) = map fst (layers_after e k)"
      by (simp add: layers_after_keys)
    assume "i \<in> fst ` set (layers_after e (Suc k))"
    then have "i \<in> fst ` set e"
      using same_keys [OF layers_after_keys] by simp
    with n that show "get_or 0 (layers_after e (Suc k)) i = get_or 0 (layers_after e k) i"
      by (auto simp: changed_def)
  qed
  then have "layer_update (layers_after e (Suc k)) body = layer_update (layers_after e k) body"
    by (rule layer_update_agree)
  with layers_after_value [OF d m] have "\<not> changed e (Suc k) h"
    by (simp add: changed_def)
  with c show False by simp
qed

text \<open>
  A head whose layer changes in round \<open>k + 1\<close> starts a chain of \<open>k + 1\<close> heads, each
  in the body of the one before; with a rank the heads of the chain are distinct, so
  there are no more than \<open>|heads|\<close> of them.
\<close>

lemma changed_chain:
  assumes d: "distinct (map fst e)" and rk: "ranked e r"
  shows "h \<in> fst ` set e \<Longrightarrow> changed e k h
         \<Longrightarrow> \<exists>xs. length xs = Suc k \<and> set xs \<subseteq> fst ` set e \<and> distinct xs \<and> (\<forall>x \<in> set xs. r x \<le> r h)"
proof (induction k arbitrary: h)
  case 0
  then have "length [h] = Suc 0 \<and> set [h] \<subseteq> fst ` set e \<and> distinct [h] \<and> (\<forall>x \<in> set [h]. r x \<le> r h)"
    by simp
  then show ?case by blast
next
  case (Suc k)
  from Suc.prems(1) obtain body where m: "(h, body) \<in> set e" by auto
  from changed_body [OF d m Suc.prems(2)] obtain i where
    i: "i \<in> set body" "i \<in> fst ` set e" "changed e k i"
    by blast
  from Suc.IH [OF i(2,3)] obtain xs where
    xs: "length xs = Suc k" "set xs \<subseteq> fst ` set e" "distinct xs" "\<forall>x \<in> set xs. r x \<le> r i"
    by blast
  have lt: "r i < r h"
    using rk m i(1,2) by (rule ranked_edge)
  with xs(4) have "h \<notin> set xs" by auto
  with xs Suc.prems(1) lt
  have "length (h # xs) = Suc (Suc k) \<and> set (h # xs) \<subseteq> fst ` set e \<and> distinct (h # xs)
        \<and> (\<forall>x \<in> set (h # xs). r x \<le> r h)"
    by auto
  then show ?case by blast
qed

lemma changed_early:
  assumes "distinct (map fst e)" and "ranked e r" and "h \<in> fst ` set e" and "changed e k h"
  shows "k < length e"
proof -
  from changed_chain [OF assms] obtain xs where
    xs: "length xs = Suc k" "set xs \<subseteq> fst ` set e" "distinct xs"
    by blast
  have "length xs = card (set xs)"
    using xs(3) by (simp add: distinct_card)
  also have "\<dots> \<le> card (fst ` set e)"
    using xs(2) by (intro card_mono) simp_all
  also have "\<dots> \<le> length e"
    by (metis card_length length_map list.set_map)
  finally show ?thesis using xs(1) by simp
qed

lemma by_keys:
  "distinct (map fst A) \<Longrightarrow> A = map (\<lambda>k. (k, get_or (0 :: int) A k)) (map fst A)"
proof (induction A)
  case Nil
  then show ?case by simp
next
  case (Cons p A)
  obtain k v where p: "p = (k, v)" by (cases p) auto
  from Cons.prems have k: "k \<notin> fst ` set A" and d: "distinct (map fst A)"
    by (simp_all add: p)
  have "map (\<lambda>x. (x, get_or 0 ((k, v) # A) x)) (map fst A) = map (\<lambda>x. (x, get_or 0 A x)) (map fst A)"
    using k by (intro map_cong) (auto simp: get_or_def)
  with Cons.IH [OF d] show ?case
    by (simp add: p get_or_def)
qed

lemma same_layers:
  assumes "distinct (map fst A)" and "map fst A = map fst B"
    and "\<And>h. h \<in> fst ` set A \<Longrightarrow> get_or 0 A h = get_or (0 :: int) B h"
  shows "A = B"
proof -
  have "A = map (\<lambda>k. (k, get_or 0 A k)) (map fst A)"
    using assms(1) by (rule by_keys)
  also have "\<dots> = map (\<lambda>k. (k, get_or 0 B k)) (map fst A)"
    using assms(3) by (intro map_cong) auto
  also have "\<dots> = B"
    using assms(1,2) by_keys [of B] by simp
  finally show ?thesis .
qed

lemma is_diff_iff:
  assumes "distinct (map fst A)" and "map fst A = map fst B"
  shows "is_diff (map (\<lambda>(i, v). (i, Some v)) A) B \<longleftrightarrow> A \<noteq> B"
proof
  assume "is_diff (map (\<lambda>(i, v). (i, Some v)) A) B"
  then obtain i c where ic: "(i, c) \<in> set A" "map_of B i \<noteq> Some c"
    by (auto simp: is_diff_def list_ex_iff)
  from ic(1) assms(1) have "map_of A i = Some c" by simp
  with ic(2) show "A \<noteq> B" by auto
next
  assume ne: "A \<noteq> B"
  have "\<exists>h \<in> fst ` set A. get_or 0 A h \<noteq> get_or 0 B h"
    using same_layers [OF assms] ne by blast
  then obtain h where h: "h \<in> fst ` set A" "get_or 0 A h \<noteq> get_or 0 B h" by blast
  from h(1) have a: "map_of A h = Some (get_or 0 A h)" by (rule map_of_key)
  then have in_A: "(h, get_or 0 A h) \<in> set A" by (rule map_of_SomeD)
  from h(1) have "h \<in> fst ` set B" using same_keys [OF assms(2)] by simp
  then have "map_of B h = Some (get_or 0 B h)" by (rule map_of_key)
  with h(2) have ne: "map_of B h \<noteq> Some (get_or 0 A h)" by simp
  from in_A have "(h, Some (get_or 0 A h)) \<in> set (map (\<lambda>(i, v). (i, Some v)) A)"
    by force
  with ne show "is_diff (map (\<lambda>(i, v). (i, Some v)) A) B"
    unfolding is_diff_def list_ex_iff
    by (intro bexI [of _ "(h, Some (get_or 0 A h))"]) simp_all
qed

lemma stable_after_heads:
  assumes "distinct (map fst e)" and "ranked e r"
  shows "layers_after e (Suc (length e)) = layers_after e (length e)"
proof (rule same_layers)
  show "distinct (map fst (layers_after e (Suc (length e))))"
    using assms(1) by (simp add: layers_after_keys)
  show "map fst (layers_after e (Suc (length e))) = map fst (layers_after e (length e))"
    by (simp add: layers_after_keys)
  fix h
  assume "h \<in> fst ` set (layers_after e (Suc (length e)))"
  then have h: "h \<in> fst ` set e"
    using same_keys [OF layers_after_keys] by simp
  have "\<not> changed e (length e) h"
    using changed_early [OF assms h, of "length e"] by auto
  then show "get_or 0 (layers_after e (Suc (length e))) h = get_or 0 (layers_after e (length e)) h"
    by (simp add: changed_def)
qed

lemma loop_reaches:
  assumes d: "distinct (map fst e)"
    and stable: "layers_after e (Suc D) = layers_after e D"
    and before: "\<And>k. k < D \<Longrightarrow> layers_after e (Suc k) \<noteq> layers_after e k"
  shows "k \<le> D \<Longrightarrow> relax e (map (\<lambda>(i, v). (i, Some v)) (layers_after e k)) (layers_after e (Suc k))
                   = Some (layers_after e D)"
proof (induction "D - k" arbitrary: k)
  case 0
  then have k: "k = D" by simp
  have "\<not> is_diff (map (\<lambda>(i, v). (i, Some v)) (layers_after e D)) (layers_after e (Suc D))"
    using d stable by (subst is_diff_iff) (simp_all add: layers_after_keys)
  then show ?case
    unfolding k by (subst relax.simps) (simp add: stable)
next
  case (Suc m)
  then have lt: "k < D" and m: "m = D - Suc k" and le: "Suc k \<le> D"
    by simp_all
  have "is_diff (map (\<lambda>(i, v). (i, Some v)) (layers_after e k)) (layers_after e (Suc k))"
    using d before [OF lt] by (subst is_diff_iff) (auto simp: layers_after_keys)
  then have "relax e (map (\<lambda>(i, v). (i, Some v)) (layers_after e k)) (layers_after e (Suc k))
             = relax e (map (\<lambda>(i, v). (i, Some v)) (layers_after e (Suc k)))
                 (layers_after e (Suc (Suc k)))"
    by (subst relax.simps) (simp add: layers_after_Suc)
  with Suc.hyps(1) [OF m le] show ?case by simp
qed

text \<open>
  On a rule set with a rank, that is, without a dependency cycle, the value iteration
  returns, and what it returns are the layers after \<open>D\<close> rounds for a \<open>D\<close> that is at
  most the number of heads; these layers are a fixed point of the round. (The loop runs
  one more round, which finds that nothing changes.)
\<close>

lemma acyclic_fixed_point_within_heads:
  assumes d: "distinct (map fst e)" and rk: "ranked e r"
  shows "\<exists>D \<le> length e. stratify e = Some (layers_after e D)
                          \<and> layers_after e (Suc D) = layers_after e D"
proof -
  define D where "D = (LEAST k. layers_after e (Suc k) = layers_after e k)"
  have stable: "layers_after e (Suc D) = layers_after e D"
    unfolding D_def using stable_after_heads [OF d rk] by (rule LeastI)
  have le: "D \<le> length e"
    unfolding D_def using stable_after_heads [OF d rk] by (rule Least_le)
  have before: "layers_after e (Suc k) \<noteq> layers_after e k" if "k < D" for k
    using that unfolding D_def by (rule not_less_Least)
  have "stratify e = Some (layers_after e D)"
  proof (cases "e = []")
    case True
    then have "D = 0" using le by simp
    with True show ?thesis
      unfolding stratify_def by (subst relax.simps) (simp add: is_diff_def layers_after_def)
  next
    case False
    then obtain p es where e: "e = p # es" by (cases e) auto
    obtain h b where p: "p = (h, b)" by (cases p) auto
    have "is_diff (map (\<lambda>(i, b). (i, None)) e) (map (\<lambda>(i, b). (i, 0)) e)"
      by (simp add: e p is_diff_def)
    then have "stratify e = relax e (map (\<lambda>(i, v). (i, Some v)) (layers_after e 0)) (layers_after e (Suc 0))"
      unfolding stratify_def by (subst relax.simps) (simp add: layers_after_def)
    with loop_reaches [OF d stable before, of 0] show ?thesis by simp
  qed
  with le stable show ?thesis by blast
qed

lemma acyclic_stratify_returns:
  assumes "distinct (map fst e)" and "ranked e r"
  shows "\<exists>V. stratify e = Some V"
  using acyclic_fixed_point_within_heads [OF assms] by blast

lemma parsed_acyclic_rules_return:
  assumes "parse flt sas_lines = Inr st" and "ranked (axiom_edges st) r"
  shows "\<exists>V. stratify (axiom_edges st) = Some V"
proof -
  have "distinct (map fst (axiom_edges st))"
    using parse_edges_of_rules [OF assms(1)] by (simp add: edges_of_rules_def)
  then show ?thesis
    using assms(2) by (rule acyclic_stratify_returns)
qed

text \<open>
  For the rules of a parsed document without a dependency cycle: the layers that the
  value iteration returns are reached after at most as many rounds as there are heads.
\<close>

lemma parsed_acyclic_rules_bound:
  assumes "parse flt sas_lines = Inr st" and "ranked (axiom_edges st) r"
  shows "\<exists>D \<le> card (rule_var ` set (rules st)).
           stratify (axiom_edges st) = Some (layers_after (axiom_edges st) D)
           \<and> layers_after (axiom_edges st) (Suc D) = layers_after (axiom_edges st) D"
proof -
  have e: "edges_of_rules st"
    using assms(1) by (rule parse_edges_of_rules)
  then have d: "distinct (map fst (axiom_edges st))"
    and h: "fst ` set (axiom_edges st) = rule_var ` set (rules st)"
    by (simp_all add: edges_of_rules_def)
  have "card (set (map fst (axiom_edges st))) = length (map fst (axiom_edges st))"
    using d by (rule distinct_card)
  with h have "length (axiom_edges st) = card (rule_var ` set (rules st))"
    by simp
  with acyclic_fixed_point_within_heads [OF d assms(2)] show ?thesis
    by simp
qed

section \<open>The handlers of the encoder\<close>

lemma first_variable_fails:
  assumes "variables st \<noteq> []" and "axiom_heads st = []" and "init st = []"
  shows "handle_variables st = Inl (KeyError, st\<lparr>didp_variables := []\<rparr>)"
proof -
  from assms(1) obtain i v vs where "variables st = (i, v) # vs"
    by (cases "variables st") auto
  with assms(2,3) show ?thesis
    by (simp add: handle_variables_def)
qed

lemma plain_handles_lookup:
  "plain_handles st \<Longrightarrow> map_of (didp_variables st) k = Some h \<Longrightarrow> h = IntVar (nat k)"
  by (auto simp: plain_handles_def list_all_iff dest: map_of_SomeD)

lemma upt_from: "[j..<Suc (j + n)] = j # [Suc j..<Suc (j + n)]"
  by (rule upt_conv_Cons) simp

lemma keys_from_upt: "map fst vs = map int [j..<j + length vs] \<Longrightarrow> keys_from j vs"
proof (induction vs arbitrary: j)
  case Nil
  then show ?case by simp
next
  case (Cons p vs)
  from Cons.prems upt_from [of j "length vs"]
  have "fst p = int j" and "map fst vs = map int [Suc j..<Suc j + length vs]"
    by (simp_all del: upt_Suc)
  with Cons.IH [of "Suc j"] show ?case by simp
qed

lemma update_set_subset: "set (AList.update k v al) \<subseteq> insert (k, v) (set al)"
  by (induction al) auto

lemma plain_handles_update:
  assumes "plain_handles st" and "didp_variables st' = AList.update k (IntVar (nat k)) (didp_variables st)"
  shows "plain_handles st'"
proof -
  have "set (AList.update k (IntVar (nat k)) (didp_variables st))
        \<subseteq> insert (k, IntVar (nat k)) (set (didp_variables st))"
    by (rule update_set_subset)
  with assms show ?thesis
    by (auto simp: plain_handles_def list_all_iff)
qed

lemma register_variables_plain:
  assumes "register_variables vs st = Inr st'"
    and "axiom_heads st = []" and "plain_handles st"
    and "keys_from (length (int_vars (model st))) vs"
  shows "plain_handles st' \<and> axiom_heads st' = [] \<and> operators st' = operators st
         \<and> transitions (model st') = transitions (model st)"
  using assms
proof (induction vs arbitrary: st)
  case Nil
  then show ?case by simp
next
  case (Cons x vs)
  obtain i v where x: "x = (i, v)" by (cases x) auto
  define j where "j = length (int_vars (model st))"
  from Cons.prems(4) have i: "i = int j" and rest: "keys_from (Suc j) vs"
    by (simp_all add: x j_def)
  from Cons.prems(1,2) obtain target where t: "map_of (init st) i = Some target"
    by (cases "map_of (init st) i") (simp_all add: x)
  define st1 where
    "st1 = st\<lparr>model := (model st)\<lparr>int_vars := int_vars (model st) @ [(var_name v, target)]\<rparr>,
                didp_variables := AList.update i (IntVar j) (didp_variables st)\<rparr>"
  from Cons.prems(1,2) t have r: "register_variables vs st1 = Inr st'"
    by (simp add: x add_int_var_def st1_def j_def)
  have d1: "didp_variables st1 = AList.update i (IntVar (nat i)) (didp_variables st)"
    by (simp add: st1_def i)
  have p1: "plain_handles st1"
    using Cons.prems(3) d1 by (rule plain_handles_update)
  have h1: "axiom_heads st1 = []"
    using Cons.prems(2) by (simp add: st1_def)
  have k1: "keys_from (length (int_vars (model st1))) vs"
    using rest by (simp add: st1_def j_def)
  have "plain_handles st' \<and> axiom_heads st' = [] \<and> operators st' = operators st1
         \<and> transitions (model st') = transitions (model st1)"
    using r h1 p1 k1 by (rule Cons.IH)
  then show ?case by (simp add: st1_def)
qed

lemma precondition_list_plain:
  assumes "precondition_list st ps = Inr cs" and "axiom_heads st = []" and "plain_handles st"
  shows "cs = kept_preconditions ps"
  using assms(1)
proof (induction ps arbitrary: cs)
  case Nil
  then show ?case by (simp add: kept_preconditions_def)
next
  case (Cons p ps)
  obtain var val where p: "p = (var, val)" by (cases p) auto
  show ?case
  proof (cases "val = - 1")
    case True
    with Cons show ?thesis
      by (simp add: p kept_preconditions_def)
  next
    case False
    with Cons.prems obtain h cs' where h: "map_of (didp_variables st) var = Some h"
      and cs': "precondition_list st ps = Inr cs'" and cs: "cs = EqC h val # cs'"
      by (auto simp: p assms(2) split: option.splits sum.splits)
    from plain_handles_lookup [OF assms(3) h] Cons.IH [OF cs'] cs False show ?thesis
      by (simp add: p kept_preconditions_def)
  qed
qed

lemma add_operators_plain:
  assumes "add_operators ops st = Inr st'" and "axiom_heads st = []" and "plain_handles st"
  shows "\<exists>ts. transitions (model st') = transitions (model st) @ ts \<and> list_all2 carries ops ts"
  using assms
proof (induction ops arbitrary: st)
  case Nil
  then show ?case by simp
next
  case (Cons op ops)
  from Cons.prems(1) obtain pre eff where
    pre: "precondition_list st (op_preconditions op) = Inr pre"
    and eff: "effect_list st (op_effects op) = Inr eff"
    by (auto split: sum.splits)
  let ?t = "\<lparr>t_name = op_name op, t_cost = op_cost op, t_preconditions = pre, t_effects = eff\<rparr>"
  let ?st1 = "st\<lparr>model := add_transition ?t (model st)\<rparr>"
  from Cons.prems(1) pre eff have r: "add_operators ops ?st1 = Inr st'"
    by simp
  have "plain_handles ?st1"
    using Cons.prems(3) by (simp add: plain_handles_def)
  with Cons.IH [OF r] Cons.prems(2) obtain ts where
    ts: "transitions (model st') = transitions (model ?st1) @ ts" "list_all2 carries ops ts"
    by auto
  have "carries op ?t"
    using precondition_list_plain [OF pre Cons.prems(2,3)] by (simp add: carries_def)
  with ts have "transitions (model st') = transitions (model st) @ (?t # ts)"
      "list_all2 carries (op # ops) (?t # ts)"
    by (simp_all add: add_transition_def)
  then show ?case by blast
qed

lemma handle_goal_transitions:
  "handle_goal st = Inr st' \<Longrightarrow> transitions (model st') = transitions (model st)"
  by (auto simp: handle_goal_def add_base_case_def split: sum.splits)

section \<open>The goal on a derived variable\<close>

text \<open>
  C1. A goal entry with the value \<open>0\<close> (on) of a derived variable should become the
  reference to the variable's boolean function, and the value \<open>1\<close> its negation.
  \<open>_handle_goal\<close> has the two values the other way round. For the document
  \<open>derived_goal_doc\<close>, after parsing, \<open>_handle_variables\<close> and \<open>_handle_axioms\<close>,
  the function of \<open>var1\<close> is \<open>var0 == 0\<close> and the goal \<open>{1: 0}\<close> yields the base case
  \<open>~f\<close>, whereas \<open>get_atom\<close> of \<open>_handle_axioms\<close> reads the same pair as \<open>f\<close>. So the
  state with \<open>var0 = 0\<close>, where \<open>var1\<close> is on, is no base state, and a state with
  \<open>var0 = 1\<close>, where it is off, is one.
\<close>

theorem derived_goal_inverted:
  "(case parse float_simple derived_goal_doc of Inl e \<Rightarrow> None
    | Inr st \<Rightarrow>
   (case handle_variables st of Inl x \<Rightarrow> None
    | Inr st1 \<Rightarrow>
   (case handle_axioms st1 of None \<Rightarrow> None | Some (Inl x) \<Rightarrow> None
    | Some (Inr st2) \<Rightarrow>
   (case handle_goal st2 of Inl x \<Rightarrow> None
    | Inr st3 \<Rightarrow>
        Some (goal st3, bool_state_funs (model st3), base_cases (model st3), get_atom st3 1 0,
              is_base_state (model st3) (\<lambda>k. 0), is_base_state (model st3) (\<lambda>k. 1))))))
   = Some ([(1, 0)], [EqC (IntVar 0) 0], [[Neg (BoolFun 0)]], Inr (BoolFun 0), False, True)"
  unfolding derived_goal_doc_def two_variables_def
  by code_simp

section \<open>A cyclic rule set\<close>

lemma cyclic_parse:
  "(case parse float_simple cyclic_doc of Inl e \<Rightarrow> False
    | Inr st \<Rightarrow> (case handle_variables st of Inl x \<Rightarrow> False
                 | Inr st1 \<Rightarrow> axiom_edges st1 = [(1, [2]), (2, [1])]
                               \<and> map fst (didp_variables st1) = [0]))"
  unfolding cyclic_doc_def three_variables_def two_variables_def
  by code_simp

text \<open>
  C2. On a rule set without a dependency cycle the value iteration reaches its fixed
  point within \<open>|heads|\<close> rounds (\<open>acyclic_fixed_point_within_heads\<close> above). On a rule
  set with a dependency cycle the stratifier should stop with a
  cyclic-axiom-dependency error. The loop of \<open>_handle_axioms\<close> has no bound on its
  rounds: for the document whose two rules make \<open>var1\<close> and \<open>var2\<close> read each other,
  parsing and \<open>_handle_variables\<close> succeed, and \<open>_handle_axioms\<close> never returns.
\<close>

theorem cyclic_axioms_never_return:
  "(case parse float_simple cyclic_doc of Inl e \<Rightarrow> False
    | Inr st \<Rightarrow> (case handle_variables st of Inl x \<Rightarrow> False
                 | Inr st1 \<Rightarrow> axiom_edges st1 = cycle_edges \<and> handle_axioms st1 = None))"
  using cyclic_parse stratify_cycle
  by (auto simp: handle_axioms_def cycle_edges_def split: sum.splits list.splits)

section \<open>The gate of transform\<close>

text \<open>
  C3, as the code has it. When a document parses and the loop read a rule block, or an
  operator block with a guarded effect record, the translation fails in \<open>transform\<close>,
  after the parse, with \<open>NotImplementedError\<close> and the model still empty. The message
  is one fixed text that names both features, whichever of them was found.
\<close>

theorem unsupported_features_rejected:
  assumes "parse flt sas_lines = Inr st"
    and "list_ex (opens ''begin_rule'') (rounds flt new_transformer sas_lines)
         \<or> list_ex guarded_round (rounds flt new_transformer sas_lines)"
  shows "transform st = Inl (NotImplementedError unsupported_message, st)
         \<and> model st = empty_model
         \<and> translate flt sas_lines = Inl (NotImplementedError unsupported_message, empty_model)"
proof -
  from flags_after_loop [OF assms(1) [unfolded parse_def]] assms(2)
  have "detected_axioms st \<or> detected_conditional_effects st"
    by (auto simp: new_transformer_def)
  then have t: "transform st = Inl (NotImplementedError unsupported_message, st)"
    by (simp add: transform_def)
  moreover have m: "model st = empty_model"
    using parse_untouched [OF assms(1)] by (simp add: untouched_def)
  ultimately show ?thesis
    using assms(1) by (simp add: translate_def)
qed

lemma guarded_doc_parses:
  "(case parse float_simple guarded_doc of Inl e \<Rightarrow> False | Inr st \<Rightarrow> init st = [])
   \<and> list_ex guarded_round (rounds float_simple new_transformer guarded_doc)"
  unfolding guarded_doc_def two_variables_def by code_simp

theorem unsupported_features_rejected_witness:
  "\<exists>st. parse float_simple guarded_doc = Inr st
      \<and> list_ex guarded_round (rounds float_simple new_transformer guarded_doc)
      \<and> translate float_simple guarded_doc
          = Inl (NotImplementedError ''Axioms and conditional effects are not yet supported.'',
                 empty_model)"
proof -
  from guarded_doc_parses obtain st where p: "parse float_simple guarded_doc = Inr st"
    and g: "list_ex guarded_round (rounds float_simple new_transformer guarded_doc)"
    by (auto split: sum.splits)
  from unsupported_features_rejected [OF p] g p show ?thesis
    by (auto simp: unsupported_message_def)
qed

text \<open>
  C3, as the claim states it, fails. The document \<open>false_rule_doc\<close> contains a rule
  block and fails with \<open>AssertionError\<close> in the parser, not with the unsupported-feature
  error. And the document with only a rule block and the document with only a guarded
  effect fail with the same error value, so the error does not tell which feature was
  found.
\<close>

theorem unsupported_error_counterexample:
  "list_ex (opens ''begin_rule'') (rounds float_simple new_transformer false_rule_doc)
   \<and> translate float_simple false_rule_doc = Inl (AssertionError, empty_model)
   \<and> list_ex (opens ''begin_rule'') (rounds float_simple new_transformer derived_goal_doc)
   \<and> \<not> list_ex guarded_round (rounds float_simple new_transformer derived_goal_doc)
   \<and> \<not> list_ex (opens ''begin_rule'') (rounds float_simple new_transformer guarded_doc)
   \<and> list_ex guarded_round (rounds float_simple new_transformer guarded_doc)
   \<and> translate float_simple derived_goal_doc = translate float_simple guarded_doc"
  unfolding false_rule_doc_def derived_goal_doc_def guarded_doc_def two_variables_def
  by code_simp

section \<open>The cost of an operator\<close>

lemma round_half_even_of_int: "round_half_even (of_int c) = c"
  by (simp add: round_half_even_def)

lemma round_half_even_eq_iff: "of_int (round_half_even q) = q \<longleftrightarrow> q \<in> \<int>"
proof
  assume "of_int (round_half_even q) = q"
  then show "q \<in> \<int>" by (metis Ints_of_int)
next
  assume "q \<in> \<int>"
  then obtain c where "q = of_int c" by (auto elim: Ints_cases)
  then show "of_int (round_half_even q) = q" by (simp add: round_half_even_of_int)
qed

text \<open>
  C4, as the code has it. The cost line is accepted exactly when the double read from it
  is finite and has an integer value \<open>c\<close>, of either sign, and \<open>c\<close> is the cost that is
  stored; a double with a fractional value raises \<open>AssertionError\<close>. Nothing tests the
  sign of the cost.
\<close>

theorem cost_accepted_iff_integer:
  "(cost_line flt (l # ls) = Inr (c, ls') \<longleftrightarrow> flt l = Some (Finite (of_int c)) \<and> ls' = ls)
   \<and> (cost_line flt (l # ls) = Inl AssertionError \<longleftrightarrow> (\<exists>q. flt l = Some (Finite q) \<and> q \<notin> \<int>))"
proof -
  have a: "cost_line flt (l # ls) = Inr (c, ls') \<longleftrightarrow> flt l = Some (Finite (of_int c)) \<and> ls' = ls"
    by (auto simp: cost_line_def py_round_def int_eq_float_def round_half_even_of_int
             split: option.splits pyfloat.splits)
  have b: "cost_line flt (l # ls) = Inl AssertionError \<longleftrightarrow> (\<exists>q. flt l = Some (Finite q) \<and> q \<notin> \<int>)"
    by (auto simp: cost_line_def py_round_def int_eq_float_def round_half_even_eq_iff
             split: option.splits pyfloat.splits)
  from a b show ?thesis by blast
qed

text \<open>
  C4, as the claim states it, fails: the operator with the cost line \<open>-3\<close> is parsed,
  stored with the cost \<open>-3\<close> and registered as a transition with that cost.
\<close>

theorem negative_cost_counterexample:
  "translate float_simple negative_cost_doc =
     Inr \<lparr>int_vars = [(''var0'', 0), (''var1'', 0)], bool_state_funs = [],
          transitions = [\<lparr>t_name = ''op1'', t_cost = - 3, t_preconditions = [EqC (IntVar 1) 0],
                          t_effects = [(IntVar 1, 1)]\<rparr>],
          base_cases = [[]]\<rparr>"
  unfolding negative_cost_doc_def two_variables_def
  by code_simp

section \<open>The preconditions of a transition\<close>

text \<open>
  C5, as the code has it. When a document parses and \<open>transform\<close> succeeds, the model has
  one transition for each operator, in order, and the precondition list of the
  transition has exactly one equality test for each entry of the operator's precondition
  dictionary whose value is not \<open>-1\<close>: no precondition comes from a \<open>-1\<close> value. The
  dictionary itself may hold such entries.
\<close>

theorem dont_care_dropped_in_transition:
  assumes "parse flt sas_lines = Inr st" and "transform st = Inr st'"
  shows "list_all2 carries (operators st) (transitions (model st'))"
proof -
  from assms(2) have f: "\<not> detected_axioms st"
    by (auto simp: transform_def split: if_splits)
  from assms(2) obtain st1 st2 where
    hv: "handle_variables st = Inr st1" and ho: "handle_operators st1 = Inr st2"
    and hg: "handle_goal st2 = Inr st'"
    by (auto simp: transform_def split: if_splits sum.splits)
  have u: "untouched st"
    using assms(1) by (rule parse_untouched)
  with f have h: "axiom_heads st = []" and m: "model st = empty_model"
    by (simp_all add: untouched_def)
  have d: "dense_ids st"
    using assms(1) by (rule parse_dense_ids)
  define st0 where "st0 = st\<lparr>didp_variables := []\<rparr>"
  have "keys_from 0 (variables st)"
    using d keys_from_upt [of "variables st" 0] by (simp add: dense_ids_def)
  then have k: "keys_from (length (int_vars (model st0))) (variables st)"
    using m by (simp add: st0_def empty_model_def)
  have r: "register_variables (variables st) st0 = Inr st1"
    using hv by (simp add: handle_variables_def st0_def)
  have h0: "axiom_heads st0 = []"
    using h by (simp add: st0_def)
  have p0: "plain_handles st0"
    by (simp add: plain_handles_def st0_def)
  have 1: "plain_handles st1 \<and> axiom_heads st1 = [] \<and> operators st1 = operators st0
         \<and> transitions (model st1) = transitions (model st0)"
    using r h0 p0 k by (rule register_variables_plain)
  have "add_operators (operators st1) st1 = Inr st2"
    using ho by (simp add: handle_operators_def)
  from add_operators_plain [OF this] 1 obtain ts where
    ts: "transitions (model st2) = transitions (model st1) @ ts" "list_all2 carries (operators st1) ts"
    by blast
  from 1 m have "transitions (model st1) = []" "operators st1 = operators st"
    by (simp_all add: empty_model_def st0_def)
  with ts handle_goal_transitions [OF hg] show ?thesis
    by simp
qed

lemma plain_doc_translates:
  "(case parse float_simple plain_doc of Inl e \<Rightarrow> False
    | Inr st \<Rightarrow>
        map op_preconditions (operators st) = [[(0, 0), (1, - 1)]]
        \<and> (case transform st of Inl x \<Rightarrow> False
            | Inr st' \<Rightarrow> map t_preconditions (transitions (model st')) = [[EqC (IntVar 0) 0]]))"
  unfolding plain_doc_def two_variables_def by code_simp

theorem dont_care_dropped_in_transition_witness:
  "\<exists>st st'. parse float_simple plain_doc = Inr st \<and> transform st = Inr st'
      \<and> map op_preconditions (operators st) = [[(0, 0), (1, - 1)]]
      \<and> map t_preconditions (transitions (model st')) = [[EqC (IntVar 0) 0]]
      \<and> list_all2 carries (operators st) (transitions (model st'))"
proof -
  from plain_doc_translates obtain st st' where p: "parse float_simple plain_doc = Inr st"
    and t: "transform st = Inr st'"
    and o: "map op_preconditions (operators st) = [[(0, 0), (1, - 1)]]"
      "map t_preconditions (transitions (model st')) = [[EqC (IntVar 0) 0]]"
    by (auto split: sum.splits)
  show ?thesis
    by (rule exI [of _ st], rule exI [of _ st'])
       (simp add: p t o dont_care_dropped_in_transition [OF p t])
qed

text \<open>
  C5, as the claim states it, fails: the parser stores the pre-value \<open>-1\<close> of the effect
  record \<open>0 1 -1 1\<close> in the operator's precondition dictionary.
\<close>

theorem dont_care_stored_counterexample:
  "map_sum id (\<lambda>st. map op_preconditions (operators st)) (parse float_simple plain_doc)
     = Inr [[(0, 0), (1, - 1)]]"
  unfolding plain_doc_def two_variables_def by code_simp

section \<open>Duplicate keys in a rule block\<close>

text \<open>
  C6. A rule block whose precondition list names the same variable twice should fail
  with a duplicate-key error, as an operator's precondition list and the goal block do.
  The rule parser makes its membership test on the string \<open>var_index\<close> before the
  conversion to an integer, so the test never fires: the block with the pairs \<open>0 0\<close>
  and \<open>0 1\<close> is accepted and the second pair overwrites the first, while the same
  pairs raise \<open>AssertionError\<close> in an operator and in the goal.
\<close>

theorem rule_duplicate_key_accepted:
  "map_sum id rules (parse float_simple duplicate_rule_doc)
     = Inr [\<lparr>rule_preconditions = [(0, 1)], rule_var = 1, rule_val = 0\<rparr>]
   \<and> parse float_simple duplicate_operator_doc = Inl AssertionError
   \<and> parse float_simple duplicate_goal_doc = Inl AssertionError"
  unfolding duplicate_rule_doc_def duplicate_operator_doc_def duplicate_goal_doc_def
    two_variables_def
  by code_simp

section \<open>Rule blocks\<close>

text \<open>
  C7. The checks on the head of a rule are assertions inside the rule block's parser.
  After a successful parse every rule block that the loop read declares a head with the
  new value \<open>0\<close> on a variable whose domain has exactly two values, the first starting
  with \<open>Atom\<close> and the second with \<open>NegatedAtom\<close>; the stored rules are these heads,
  one for each block and in the order of the blocks. A rule block that declares a head
  with a new value other than \<open>0\<close>, or on a variable with another domain, makes the
  block's parser raise \<open>AssertionError\<close>; a document in which the loop reads such a
  block does not parse, and its translation ends with this \<open>AssertionError\<close> and an
  empty model, so the gate of \<open>transform\<close> is not reached.
\<close>

theorem rule_blocks_are_validated:
  "(parse flt sas_lines = Inr st \<longrightarrow>
      list_all true_head (filter (opens ''begin_rule'') (rounds flt new_transformer sas_lines))
      \<and> map stored_head (rules st)
        = map read_head (filter (opens ''begin_rule'') (rounds flt new_transformer sas_lines))
      \<and> list_all (valid_rule st) (rules st)
      \<and> length (rules st)
        = length (filter (opens ''begin_rule'') (rounds flt new_transformer sas_lines)))
   \<and> (rule_head st0 ls = Some (var, new, v) \<and> (new \<noteq> 0 \<or> \<not> boolean_domain v)
        \<longrightarrow> parse_rule st0 ls = Inl AssertionError)
   \<and> (list_ex refused_round (rounds flt' new_transformer sas_lines')
        \<longrightarrow> parse flt' sas_lines' = Inl AssertionError
            \<and> translate flt' sas_lines' = Inl (AssertionError, empty_model))"
proof (intro conjI impI)
  assume p: "parse flt sas_lines = Inr st"
  have "dense_ids new_transformer \<and> list_all (valid_rule new_transformer) (rules new_transformer)"
    by (simp add: dense_ids_new) (simp add: new_transformer_def)
  with p have "dense_ids st \<and> list_all (valid_rule st) (rules st)"
    unfolding parse_def
    by (rule parse_loop_invariant [where I = "\<lambda>st. dense_ids st \<and> list_all (valid_rule st) (rules st)"])
       (rule rules_valid_block)
  then show "list_all (valid_rule st) (rules st)"
    by simp
  show "length (rules st)
        = length (filter (opens ''begin_rule'') (rounds flt new_transformer sas_lines))"
    using rules_count [OF p [unfolded parse_def]]
    by (simp add: new_transformer_def)
  from rounds_true_heads [OF p [unfolded parse_def]]
  show "list_all true_head (filter (opens ''begin_rule'') (rounds flt new_transformer sas_lines))"
    and "map stored_head (rules st)
         = map read_head (filter (opens ''begin_rule'') (rounds flt new_transformer sas_lines))"
    by (simp_all add: new_transformer_def)
next
  assume "rule_head st0 ls = Some (var, new, v) \<and> (new \<noteq> 0 \<or> \<not> boolean_domain v)"
  then show "parse_rule st0 ls = Inl AssertionError"
    by (blast intro: parse_rule_raises)
next
  assume r: "list_ex refused_round (rounds flt' new_transformer sas_lines')"
  then show "parse flt' sas_lines' = Inl AssertionError"
    unfolding parse_def by (rule refused_round_raises)
  then show "translate flt' sas_lines' = Inl (AssertionError, empty_model)"
    by (simp add: translate_def)
qed

lemma derived_goal_doc_parses:
  "(case parse float_simple derived_goal_doc of Inl e \<Rightarrow> False
    | Inr st \<Rightarrow> rules st = [\<lparr>rule_preconditions = [(0, 0)], rule_var = 1, rule_val = 0\<rparr>])"
  unfolding derived_goal_doc_def two_variables_def by code_simp

lemma false_rule_block_head:
  "(case parse float_simple two_variables of Inl e \<Rightarrow> False
    | Inr st \<Rightarrow>
        rule_head st false_rule_block
        = Some (1, 1, \<lparr>var_name = ''var1'', var_values = [''Atom b'', ''NegatedAtom b''],
                       var_axiom_layer = - 1\<rparr>))"
  unfolding two_variables_def false_rule_block_def by code_simp

lemma false_rule_doc_round:
  "list_ex refused_round (rounds float_simple new_transformer false_rule_doc)"
  unfolding false_rule_doc_def two_variables_def by code_simp

lemma many_valued_doc_round:
  "list_ex refused_round (rounds float_simple new_transformer many_valued_doc)"
  unfolding many_valued_doc_def by code_simp

theorem rule_blocks_are_validated_witness:
  "\<exists>st st0.
      parse float_simple derived_goal_doc = Inr st
      \<and> rules st = [\<lparr>rule_preconditions = [(0, 0)], rule_var = 1, rule_val = 0\<rparr>]
      \<and> list_all true_head
           (filter (opens ''begin_rule'') (rounds float_simple new_transformer derived_goal_doc))
      \<and> map read_head
           (filter (opens ''begin_rule'') (rounds float_simple new_transformer derived_goal_doc))
        = [Some (1, 0)]
      \<and> list_all (valid_rule st) (rules st)
      \<and> length (filter (opens ''begin_rule'') (rounds float_simple new_transformer derived_goal_doc)) = 1
      \<and> parse float_simple two_variables = Inr st0
      \<and> rule_head st0 false_rule_block
        = Some (1, 1, \<lparr>var_name = ''var1'', var_values = [''Atom b'', ''NegatedAtom b''],
                       var_axiom_layer = - 1\<rparr>)
      \<and> parse_rule st0 false_rule_block = Inl AssertionError
      \<and> list_ex refused_round (rounds float_simple new_transformer false_rule_doc)
      \<and> parse float_simple false_rule_doc = Inl AssertionError
      \<and> translate float_simple false_rule_doc = Inl (AssertionError, empty_model)
      \<and> list_ex refused_round (rounds float_simple new_transformer many_valued_doc)
      \<and> parse float_simple many_valued_doc = Inl AssertionError"
proof -
  from derived_goal_doc_parses obtain st where p: "parse float_simple derived_goal_doc = Inr st"
    and r: "rules st = [\<lparr>rule_preconditions = [(0, 0)], rule_var = 1, rule_val = 0\<rparr>]"
    by (auto split: sum.splits)
  from false_rule_block_head obtain st0 where q: "parse float_simple two_variables = Inr st0"
    and h: "rule_head st0 false_rule_block
            = Some (1, 1, \<lparr>var_name = ''var1'', var_values = [''Atom b'', ''NegatedAtom b''],
                           var_axiom_layer = - 1\<rparr>)"
    by (auto split: sum.splits)
  note t = rule_blocks_are_validated
    [where flt = float_simple and sas_lines = derived_goal_doc and st = st and ?st0.0 = st0
       and ls = false_rule_block and var = 1 and new = 1
       and v = "\<lparr>var_name = ''var1'', var_values = [''Atom b'', ''NegatedAtom b''],
                  var_axiom_layer = - 1\<rparr>"
       and flt' = float_simple and sas_lines' = false_rule_doc]
  note u = rule_blocks_are_validated
    [where flt' = float_simple and sas_lines' = many_valued_doc]
  from t u p r q h false_rule_doc_round many_valued_doc_round show ?thesis
    by (intro exI [of _ st] exI [of _ st0]) (simp add: stored_head_def)
qed

section \<open>The layers at the fixed point\<close>

text \<open>
  C8. When the value iteration returns for the rules of a parsed document, the layering
  has exactly the heads of the rules as its keys; the layer of each head is one more than
  the greatest layer of a derived variable in the bodies of its rules, and \<open>1\<close> when
  there is none; so every derived variable in the body of a rule has a smaller layer
  than the head of the rule.
\<close>

theorem layers_at_fixed_point:
  assumes "parse flt sas_lines = Inr st" and "stratify (axiom_edges st) = Some V"
  shows "fst ` set V = rule_var ` set (rules st)
         \<and> (\<forall>h \<in> rule_var ` set (rules st).
               map_of V h = Some (1 + Max (insert 0 {a. \<exists>i \<in> body_vars st h. map_of V i = Some a})))
         \<and> (\<forall>r \<in> set (rules st). \<forall>i \<in> fst ` set (rule_preconditions r). \<forall>a.
               map_of V i = Some a \<longrightarrow> (\<exists>b. map_of V (rule_var r) = Some b \<and> a < b))"
proof -
  have e: "edges_of_rules st"
    using assms(1) by (rule parse_edges_of_rules)
  then have d: "distinct (map fst (axiom_edges st))"
    and h: "fst ` set (axiom_edges st) = rule_var ` set (rules st)"
    and b: "\<And>h. set (get_or [] (axiom_edges st) h) = body_vars st h"
    by (simp_all add: edges_of_rules_def)
  have f: "fixed_point (axiom_edges st) V"
    using assms(2) d by (rule stratify_fixed_point)
  then have "map fst V = map fst (axiom_edges st)"
    by (simp add: fixed_point_def)
  then have "fst ` set V = fst ` set (axiom_edges st)"
    by (metis list.set_map)
  with h have 1: "fst ` set V = rule_var ` set (rules st)"
    by simp
  have l: "map_of V x = Some (layer_update V (get_or [] (axiom_edges st) x))"
    if "x \<in> rule_var ` set (rules st)" for x
    using f d that h by (intro fixed_point_head) simp_all
  have 2: "map_of V x = Some (1 + Max (insert 0 {a. \<exists>i \<in> body_vars st x. map_of V i = Some a}))"
    if "x \<in> rule_var ` set (rules st)" for x
    using l [OF that] b [of x] by (simp add: layer_update_max body_layers_def)
  have 3: "\<exists>b. map_of V (rule_var r) = Some b \<and> a < b"
    if "r \<in> set (rules st)" and "i \<in> fst ` set (rule_preconditions r)" and "map_of V i = Some a"
    for r i a
  proof -
    from that(1,2) have "i \<in> body_vars st (rule_var r)"
      by (auto simp: body_vars_def)
    then have "i \<in> set (get_or [] (axiom_edges st) (rule_var r))"
      by (simp add: b)
    from layer_update_above [OF this that(3)] l [of "rule_var r"] that(1) show ?thesis
      by simp
  qed
  from 1 2 3 show ?thesis by blast
qed

lemma layered_doc_layers:
  "(case parse float_simple layered_doc of Inl e \<Rightarrow> False
    | Inr st \<Rightarrow> map rule_var (rules st) = [2, 1]
               \<and> stratify (axiom_edges st) = Some [(2, 2), (1, 1)])"
  unfolding layered_doc_def three_variables_def two_variables_def by code_simp

theorem layers_at_fixed_point_witness:
  "\<exists>st V. parse float_simple layered_doc = Inr st
      \<and> stratify (axiom_edges st) = Some V
      \<and> V = [(2, 2), (1, 1)]
      \<and> fst ` set V = rule_var ` set (rules st)
      \<and> (\<forall>r \<in> set (rules st). \<forall>i \<in> fst ` set (rule_preconditions r). \<forall>a.
            map_of V i = Some a \<longrightarrow> (\<exists>b. map_of V (rule_var r) = Some b \<and> a < b))"
proof -
  from layered_doc_layers obtain st where p: "parse float_simple layered_doc = Inr st"
    and s: "stratify (axiom_edges st) = Some [(2, 2), (1, 1)]"
    by (auto split: sum.splits)
  from layers_at_fixed_point [OF p s] have
    "fst ` set [(2, 2), (1, 1 :: int)] = rule_var ` set (rules st)"
    "\<forall>r \<in> set (rules st). \<forall>i \<in> fst ` set (rule_preconditions r). \<forall>a.
        map_of [(2, 2), (1, 1 :: int)] i = Some a
        \<longrightarrow> (\<exists>b. map_of [(2, 2), (1, 1 :: int)] (rule_var r) = Some b \<and> a < b)"
    by blast+
  with p s show ?thesis
    by (intro exI [of _ st] exI [of _ "[(2, 2), (1, 1)]"]) simp
qed

section \<open>Variable ids\<close>

text \<open>
  C9. After a successful parse the ids of the variables are \<open>0, 1, 2, \<dots>\<close> in the
  order of declaration, every declared name is \<open>var\<close> followed by its id, and the
  names stored at the ids \<open>0, 1, 2, \<dots>\<close> are the names declared by the variable
  blocks of the document, in the order in which the loop reads the blocks. The id is
  \<open>len(self._variables)\<close>, never a number read from the text, and a name that differs
  from the positional name fails the assertion, so no such document parses.
\<close>

theorem variable_ids_are_positions:
  assumes "parse flt sas_lines = Inr st"
  shows "map fst (variables st) = map int [0..<length (variables st)]
         \<and> list_all (\<lambda>(i, v). var_name v = ''var'' @ str_nat (nat i)) (variables st)
         \<and> map (\<lambda>(i, v). var_name v) (variables st)
           = map (\<lambda>r. hd (snd (snd r)))
               (filter (opens ''begin_variable'') (rounds flt new_transformer sas_lines))"
proof -
  have "dense_ids st"
    using assms by (rule parse_dense_ids)
  moreover have "map (\<lambda>(i, v). var_name v) (variables st)
           = map (\<lambda>r. hd (snd (snd r)))
               (filter (opens ''begin_variable'') (rounds flt new_transformer sas_lines))"
    using declared_names [OF assms [unfolded parse_def] dense_ids_new]
    by (simp add: new_transformer_def)
  ultimately show ?thesis
    by (simp add: dense_ids_def)
qed

lemma plain_doc_parses:
  "(case parse float_simple plain_doc of Inl e \<Rightarrow> False
    | Inr st \<Rightarrow> map (\<lambda>(i, v). (i, var_name v)) (variables st) = [(0, ''var0''), (1, ''var1'')])"
  unfolding plain_doc_def two_variables_def by code_simp

theorem variable_ids_are_positions_witness:
  "\<exists>st. parse float_simple plain_doc = Inr st
      \<and> map fst (variables st) = [0, 1]
      \<and> map (\<lambda>(i, v). var_name v) (variables st) = [''var0'', ''var1'']
      \<and> map (\<lambda>r. hd (snd (snd r)))
           (filter (opens ''begin_variable'') (rounds float_simple new_transformer plain_doc))
         = [''var0'', ''var1'']"
proof -
  from plain_doc_parses obtain st where p: "parse float_simple plain_doc = Inr st"
    and v: "map (\<lambda>(i, v). (i, var_name v)) (variables st) = [(0, ''var0''), (1, ''var1'')]"
    by (auto split: sum.splits)
  from v have "map fst (variables st) = [0, 1]"
      "map (\<lambda>(i, v). var_name v) (variables st) = [''var0'', ''var1'']"
    by auto
  with variable_ids_are_positions [OF p] p show ?thesis
    by auto
qed

text \<open>A declared name that is not the positional name ends the parse.\<close>

lemma misnamed_variable_rejected: "parse float_simple misnamed_doc = Inl AssertionError"
  unfolding misnamed_doc_def by code_simp

section \<open>A document without initial state\<close>

text \<open>
  C10, as the code has it. Take a document that parses, in which the loop read no rule
  block and no guarded effect record, read at least one variable block, and read no
  initial-state block after a variable was declared. Then the initial assignment is
  empty, and \<open>transform\<close> fails with \<open>KeyError\<close> at the first variable, with nothing
  added to the model.
\<close>

theorem missing_initial_state:
  assumes "parse flt sas_lines = Inr st"
    and "\<not> list_ex (opens ''begin_rule'') (rounds flt new_transformer sas_lines)"
    and "\<not> list_ex guarded_round (rounds flt new_transformer sas_lines)"
    and "list_ex (opens ''begin_variable'') (rounds flt new_transformer sas_lines)"
    and "\<not> list_ex state_round (rounds flt new_transformer sas_lines)"
  shows "init st = []
         \<and> transform st = Inl (KeyError, st)
         \<and> model st = empty_model
         \<and> translate flt sas_lines = Inl (KeyError, empty_model)"
proof -
  note p = assms(1) [unfolded parse_def]
  have i: "init st = []"
    using init_unchanged [OF p assms(5)] by (simp add: new_transformer_def)
  from flags_after_loop [OF p] assms(2,3)
  have f: "\<not> detected_axioms st" "\<not> detected_conditional_effects st"
    by (simp_all add: new_transformer_def)
  have u: "untouched st"
    using assms(1) by (rule parse_untouched)
  with f have h: "axiom_heads st = []" and d: "didp_variables st = []"
    and m: "model st = empty_model"
    by (simp_all add: untouched_def)
  from assms(4) have "filter (opens ''begin_variable'') (rounds flt new_transformer sas_lines) \<noteq> []"
    by (auto simp: list_ex_iff filter_empty_conv)
  with declared_names [OF p dense_ids_new] have v: "variables st \<noteq> []"
    by (auto simp: new_transformer_def)
  from d have "st\<lparr>didp_variables := []\<rparr> = st" by simp
  with first_variable_fails [OF v h i] have "handle_variables st = Inl (KeyError, st)"
    by simp
  with f have t: "transform st = Inl (KeyError, st)"
    by (simp add: transform_def)
  with i m assms(1) show ?thesis
    by (simp add: translate_def)
qed

lemma no_state_doc_parses:
  "(case parse float_simple no_state_doc of Inl e \<Rightarrow> False | Inr st \<Rightarrow> True)
   \<and> \<not> list_ex (opens ''begin_rule'') (rounds float_simple new_transformer no_state_doc)
   \<and> \<not> list_ex guarded_round (rounds float_simple new_transformer no_state_doc)
   \<and> list_ex (opens ''begin_variable'') (rounds float_simple new_transformer no_state_doc)
   \<and> \<not> list_ex state_round (rounds float_simple new_transformer no_state_doc)"
  unfolding no_state_doc_def two_variables_def by code_simp

theorem missing_initial_state_witness:
  "\<exists>st. parse float_simple no_state_doc = Inr st
      \<and> \<not> list_ex (opens ''begin_rule'') (rounds float_simple new_transformer no_state_doc)
      \<and> \<not> list_ex guarded_round (rounds float_simple new_transformer no_state_doc)
      \<and> list_ex (opens ''begin_variable'') (rounds float_simple new_transformer no_state_doc)
      \<and> \<not> list_ex state_round (rounds float_simple new_transformer no_state_doc)
      \<and> init st = []
      \<and> translate float_simple no_state_doc = Inl (KeyError, empty_model)"
proof -
  from no_state_doc_parses obtain st where p: "parse float_simple no_state_doc = Inr st"
    by (auto split: sum.splits)
  from missing_initial_state [OF p] no_state_doc_parses p show ?thesis
    by auto
qed

text \<open>
  C10, as the claim states it, fails. The document \<open>guarded_doc\<close> declares two
  variables, none of them derived, and has no initial-state block; it parses with an
  empty initial assignment, but \<open>transform\<close> fails at its gate with the
  unsupported-feature error and never looks the initial value up.
\<close>

theorem missing_initial_state_counterexample:
  "list_ex (opens ''begin_variable'') (rounds float_simple new_transformer guarded_doc)
   \<and> \<not> list_ex (opens ''begin_state'') (rounds float_simple new_transformer guarded_doc)
   \<and> map_sum id (\<lambda>st. (init st, axiom_heads st)) (parse float_simple guarded_doc) = Inr ([], [])
   \<and> translate float_simple guarded_doc
       = Inl (NotImplementedError ''Axioms and conditional effects are not yet supported.'',
              empty_model)"
  unfolding guarded_doc_def two_variables_def
  by code_simp

end
